theory Spec2Isabelle
  imports Main "HOL-Library.Product_Lexorder" "HOL-Library.Multiset" "HOL-Library.Sublist"
begin

section \<open>Python values and library functions the programme calls\<close>

text \<open>
  Strings are lists of characters; the model covers ASCII text. (Python's \<open>\d\<close>,
  \<open>\s\<close> and \<open>str.strip\<close> also accept non-ASCII digits and blanks, which an 8-bit
  character cannot hold.)
\<close>

subsection \<open>Exceptions\<close>

text \<open>
  An exception is its class and its message. \<open>except ValueError\<close> in \<open>app.py\<close>
  tells the classes apart; \<open>str(e)\<close> reads the message.
\<close>

datatype exn =
    ValueError string
  | TypeError string
  | AttributeError string
  | OtherError string

fun str_exn :: "exn \<Rightarrow> string" where
  "str_exn (ValueError m) = m"
| "str_exn (TypeError m) = m"
| "str_exn (AttributeError m) = m"
| "str_exn (OtherError m) = m"

fun is_ValueError :: "exn \<Rightarrow> bool" where
  "is_ValueError (ValueError _) = True"
| "is_ValueError _ = False"

subsection \<open>Characters and strings\<close>

definition is_digit :: "char \<Rightarrow> bool" where
  "is_digit c = (c \<in> set ''0123456789'')"

text \<open>The ASCII characters for which \<open>str.isspace\<close> holds: codes 9 to 13, 28 to 31 and 32.\<close>

definition is_space :: "char \<Rightarrow> bool" where
  "is_space c = ((of_char c :: nat) \<in> set [9, 10, 11, 12, 13, 28, 29, 30, 31, 32])"

definition digit_val :: "char \<Rightarrow> nat" where
  "digit_val c = of_char c - 48"

text \<open>\<open>int(s)\<close> on a string of decimal digits.\<close>

definition int_of_digits :: "string \<Rightarrow> nat" where
  "int_of_digits s = foldl (\<lambda>n c. 10 * n + digit_val c) 0 s"

text \<open>\<open>str.strip()\<close>: blanks removed at both ends.\<close>

definition strip :: "string \<Rightarrow> string" where
  "strip s = rev (dropWhile is_space (rev (dropWhile is_space s)))"

text \<open>\<open>s.split(c)\<close> for a one-character separator: every occurrence cuts, empty pieces stay.\<close>

fun split_char :: "char \<Rightarrow> string \<Rightarrow> string list" where
  "split_char c [] = [[]]"
| "split_char c (x # xs) =
     (if x = c then [] # split_char c xs
      else (case split_char c xs of
              [] \<Rightarrow> [[x]]
            | p # ps \<Rightarrow> (x # p) # ps))"

text \<open>\<open>str(n)\<close> for a non-negative integer.\<close>

definition digit_char :: "nat \<Rightarrow> char" where
  "digit_char d = char_of (48 + d)"

fun str_nat :: "nat \<Rightarrow> string" where
  "str_nat n = (if n < 10 then [digit_char n] else str_nat (n div 10) @ [digit_char (n mod 10)])"

declare str_nat.simps [simp del]

subsection \<open>datetime.strptime with the format \<open>%Y-%m-%d %H:%M:%S\<close>\<close>

text \<open>
  A naive datetime is its six fields; Python orders datetimes field by field, which
  is the lexicographic order of the tuple.
\<close>

type_synonym datetime = "nat \<times> nat \<times> nat \<times> nat \<times> nat \<times> nat"

text \<open>
  \<open>strptime\<close> compiles the format to the regular expression
  \<^verbatim>\<open>(\d\d\d\d)-(1[0-2]|0[1-9]|[1-9])-(3[0-1]|[1-2]\d|0[1-9]|[1-9]| [1-9])\s+\<close>
  \<^verbatim>\<open>(2[0-3]|[0-1]\d|\d):([0-5]\d|\d):(6[0-1]|[0-5]\d|\d)\<close>,
  matches it at the start of the text and refuses text that remains after the match.
  A matcher returns its ways to match a prefix, in the order a backtracking matcher
  tries them, each with the number read and the rest of the text.
\<close>

type_synonym 'a matcher = "string \<Rightarrow> ('a \<times> string) list"

definition in_range :: "char \<Rightarrow> char \<Rightarrow> char \<Rightarrow> bool" where
  "in_range lo hi c = ((of_char lo :: nat) \<le> of_char c \<and> (of_char c :: nat) \<le> of_char hi)"

text \<open>Two characters, the first in \<open>[a-b]\<close> and the second in \<open>[c-d]\<close>.\<close>

fun two_chars :: "char \<Rightarrow> char \<Rightarrow> char \<Rightarrow> char \<Rightarrow> nat matcher" where
  "two_chars a b c d (x # y # rest) =
     (if in_range a b x \<and> in_range c d y then [(10 * digit_val x + digit_val y, rest)] else [])"
| "two_chars a b c d _ = []"

fun one_char :: "char \<Rightarrow> char \<Rightarrow> nat matcher" where
  "one_char a b (x # rest) = (if in_range a b x then [(digit_val x, rest)] else [])"
| "one_char a b _ = []"

fun lit :: "char \<Rightarrow> unit matcher" where
  "lit c (x # rest) = (if x = c then [((), rest)] else [])"
| "lit c [] = []"

definition re_Y :: "nat matcher" where
  "re_Y s =
     (case s of
        a # b # c # d # rest \<Rightarrow>
          (if is_digit a \<and> is_digit b \<and> is_digit c \<and> is_digit d
           then [(int_of_digits [a, b, c, d], rest)] else [])
      | _ \<Rightarrow> [])"

definition re_m :: "nat matcher" where
  "re_m s = two_chars CHR ''1'' CHR ''1'' CHR ''0'' CHR ''2'' s
          @ two_chars CHR ''0'' CHR ''0'' CHR ''1'' CHR ''9'' s
          @ one_char CHR ''1'' CHR ''9'' s"

definition re_d :: "nat matcher" where
  "re_d s = two_chars CHR ''3'' CHR ''3'' CHR ''0'' CHR ''1'' s
          @ two_chars CHR ''1'' CHR ''2'' CHR ''0'' CHR ''9'' s
          @ two_chars CHR ''0'' CHR ''0'' CHR ''1'' CHR ''9'' s
          @ one_char CHR ''1'' CHR ''9'' s
          @ (case s of
               x # rest \<Rightarrow> (if x = CHR '' '' then one_char CHR ''1'' CHR ''9'' rest else [])
             | [] \<Rightarrow> [])"

definition re_H :: "nat matcher" where
  "re_H s = two_chars CHR ''2'' CHR ''2'' CHR ''0'' CHR ''3'' s
          @ two_chars CHR ''0'' CHR ''1'' CHR ''0'' CHR ''9'' s
          @ one_char CHR ''0'' CHR ''9'' s"

definition re_M :: "nat matcher" where
  "re_M s = two_chars CHR ''0'' CHR ''5'' CHR ''0'' CHR ''9'' s
          @ one_char CHR ''0'' CHR ''9'' s"

definition re_S :: "nat matcher" where
  "re_S s = two_chars CHR ''6'' CHR ''6'' CHR ''0'' CHR ''1'' s
          @ two_chars CHR ''0'' CHR ''5'' CHR ''0'' CHR ''9'' s
          @ one_char CHR ''0'' CHR ''9'' s"

text \<open>\<open>\s+\<close> is greedy: the longest run of blanks first, then one blank less, down to one.\<close>

fun re_spaces :: "unit matcher" where
  "re_spaces [] = []"
| "re_spaces (x # rest) = (if is_space x then re_spaces rest @ [((), rest)] else [])"

definition seq :: "'a matcher \<Rightarrow> ('a \<Rightarrow> 'b matcher) \<Rightarrow> 'b matcher" where
  "seq p f s = concat (map (\<lambda>(a, rest). f a rest) (p s))"

definition ret :: "'a \<Rightarrow> 'a matcher" where
  "ret a s = [(a, s)]"

definition re_format :: "datetime matcher" where
  "re_format =
     seq re_Y (\<lambda>y. seq (lit CHR ''-'') (\<lambda>_. seq re_m (\<lambda>m. seq (lit CHR ''-'') (\<lambda>_.
     seq re_d (\<lambda>d. seq re_spaces (\<lambda>_. seq re_H (\<lambda>h. seq (lit CHR '':'') (\<lambda>_.
     seq re_M (\<lambda>mi. seq (lit CHR '':'') (\<lambda>_. seq re_S (\<lambda>sec.
     ret (y, m, d, h, mi, sec))))))))))))"

definition is_leap :: "nat \<Rightarrow> bool" where
  "is_leap y = (y mod 4 = 0 \<and> (y mod 100 \<noteq> 0 \<or> y mod 400 = 0))"

definition days_in_month :: "nat \<Rightarrow> nat \<Rightarrow> nat" where
  "days_in_month y m =
     (if m = 2 then (if is_leap y then 29 else 28)
      else if m \<in> set [4, 6, 9, 11] then 30 else 31)"

text \<open>
  The first match decides: text left after it is "unconverted data remains". The
  fields then build a \<open>datetime\<close>, which refuses year 0, a day the month does not
  have and a second above 59. \<open>None\<close> is the \<open>ValueError\<close>.
\<close>

definition strptime :: "string \<Rightarrow> datetime option" where
  "strptime s =
     (case re_format s of
        [] \<Rightarrow> None
      | ((y, m, d, h, mi, sec), rest) # _ \<Rightarrow>
          (if rest \<noteq> [] then None
           else if y < 1 \<or> d > days_in_month y m \<or> sec > 59 then None
           else Some (y, m, d, h, mi, sec)))"

text \<open>
  \<open>strftime('%Y-%m-%dT%H:%M:%SZ')\<close>: month, day, hour, minute and second on two
  digits; the year as the C library prints it, a decimal number.
\<close>

definition pad2 :: "nat \<Rightarrow> string" where
  "pad2 n = (if n < 10 then CHR ''0'' # str_nat n else str_nat n)"

fun strftime_iso :: "datetime \<Rightarrow> string" where
  "strftime_iso (y, m, d, h, mi, sec) =
     str_nat y @ ''-'' @ pad2 m @ ''-'' @ pad2 d @ ''T'' @ pad2 h @ '':'' @ pad2 mi @ '':'' @ pad2 sec @ ''Z''"

subsection \<open>Values of dictionaries\<close>

text \<open>
  The values the programme keeps in metadata maps and request payloads. \<open>PTime dt\<close>
  stands for \<open>dt.timestamp()\<close>, the epoch seconds of the local time \<open>dt\<close>: the float
  itself depends on the host's time zone and is not computed.
\<close>

datatype pyval = PNone | PStr string | PInt int | PTime datetime

type_synonym pydict = "(string \<times> pyval) list"

text \<open>\<open>d.get(k)\<close>: the value, or \<open>None\<close>.\<close>

definition dict_get :: "pydict \<Rightarrow> string \<Rightarrow> pyval" where
  "dict_get d k = (case map_of d k of None \<Rightarrow> PNone | Some v \<Rightarrow> v)"

text \<open>Truth value of an object in \<open>if x:\<close>.\<close>

fun truthy :: "pyval \<Rightarrow> bool" where
  "truthy PNone = False"
| "truthy (PStr s) = (s \<noteq> [])"
| "truthy (PInt n) = (n \<noteq> 0)"
| "truthy (PTime _) = True"

text \<open>How the \<open>TypeError\<close> of \<open>strptime\<close> names an argument that is no string.\<close>

fun arg_type_name :: "pyval \<Rightarrow> string" where
  "arg_type_name PNone = ''None''"
| "arg_type_name (PStr _) = ''str''"
| "arg_type_name (PInt _) = ''int''"
| "arg_type_name (PTime _) = ''float''"

text \<open>\<open>f"{x}"\<close> of a string or \<open>None\<close>.\<close>

fun format_opt :: "string option \<Rightarrow> string" where
  "format_opt None = ''None''"
| "format_opt (Some s) = s"

section \<open>The vector store (chromadb client)\<close>

text \<open>
  The store is the external chromadb server. A collection is its user metadata
  (\<open>None\<close> when it was created without any) and the batches handed to \<open>add\<close>; the
  store maps collection names to collections. Each call of the client can fail: the
  failures of one request are given with it, in \<open>env\<close>. The operations follow the
  library:
  \<^item> \<open>get_collection\<close> returns the stored collection and changes nothing;
  \<open>create_collection\<close> stores a new collection with the given metadata;
  \<^item> \<open>get_or_create_collection\<close> returns a collection that exists as it is (the
    metadata argument is ignored then) and creates it otherwise;
  \<^item> \<open>collection.modify(metadata=m)\<close> sets the collection's metadata to \<open>m\<close>: the
    stored metadata is reset to the supplied map;
  \<^item> \<open>collection.add\<close> stores one batch of ids, documents and metadata maps.
\<close>

record batch =
  ids :: "string list"
  documents :: "string list"
  metadatas :: "pydict list"

record collection =
  metadata :: "pydict option"
  batches :: "batch list"

type_synonym store = "(string \<times> collection) list"

type_synonym raw_ticket = "(string \<times> string) list"

text \<open>
  A response of the record source: its status code and what
  \<open>response.json().get('result', [])\<close> gives (or the exception of \<open>json()\<close>).
\<close>

record response =
  status_code :: nat
  result :: "exn + raw_ticket list"

text \<open>
  What one request meets outside the programme: the exception of each store call, if
  it raises, and the record source, which answers the two strings of the query
  (\<open>date_part\<close>, \<open>time_part\<close>) with a response or a transport exception.
  \<open>timestamp_exn\<close> is the exception of \<open>datetime.timestamp()\<close> where the host (its time
  zone, its \<open>time_t\<close>) makes the conversion fail.
  \<open>snow_url\<close> is the configured \<open>SERVICENOW_URL\<close>; the module reads it with
  \<open>os.getnenv\<close>, a misspelling of \<open>os.getenv\<close>, and the model takes the value as
  given.
\<close>

record env =
  connect_exn :: "exn option"
  list_exn :: "exn option"
  open_exn :: "exn option"
  source :: "string \<Rightarrow> string \<Rightarrow> exn + response"
  add_exn :: "exn option"
  modify_exn :: "exn option"
  timestamp_exn :: "datetime \<Rightarrow> exn option"
  snow_url :: string

definition update_collection :: "string \<Rightarrow> (collection \<Rightarrow> collection) \<Rightarrow> store \<Rightarrow> store" where
  "update_collection name f s = map (\<lambda>(n, c). if n = name then (n, f c) else (n, c)) s"

definition list_collections :: "env \<Rightarrow> store \<Rightarrow> exn + string list" where
  "list_collections e s =
     (case list_exn e of Some x \<Rightarrow> Inl x | None \<Rightarrow> Inr (map fst s))"

definition get_collection :: "env \<Rightarrow> store \<Rightarrow> string \<Rightarrow> exn + collection" where
  "get_collection e s name =
     (case open_exn e of
        Some x \<Rightarrow> Inl x
      | None \<Rightarrow>
          (case map_of s name of
             None \<Rightarrow> Inl (OtherError (''Collection '' @ name @ '' does not exist''))
           | Some c \<Rightarrow> Inr c))"

definition create_collection ::
  "env \<Rightarrow> store \<Rightarrow> string \<Rightarrow> pydict option \<Rightarrow> (exn + collection) \<times> store" where
  "create_collection e s name md =
     (case open_exn e of
        Some x \<Rightarrow> (Inl x, s)
      | None \<Rightarrow>
          (case map_of s name of
             Some _ \<Rightarrow> (Inl (OtherError (''Collection '' @ name @ '' already exists'')), s)
           | None \<Rightarrow>
               (let c = \<lparr>metadata = md, batches = []\<rparr>
                in (Inr c, s @ [(name, c)]))))"

definition get_or_create_collection ::
  "env \<Rightarrow> store \<Rightarrow> string \<Rightarrow> pydict option \<Rightarrow> (exn + collection) \<times> store" where
  "get_or_create_collection e s name md =
     (case open_exn e of
        Some x \<Rightarrow> (Inl x, s)
      | None \<Rightarrow>
          (case map_of s name of
             Some c \<Rightarrow> (Inr c, s)
           | None \<Rightarrow>
               (let c = \<lparr>metadata = md, batches = []\<rparr>
                in (Inr c, s @ [(name, c)]))))"

definition collection_modify :: "env \<Rightarrow> store \<Rightarrow> string \<Rightarrow> pydict \<Rightarrow> (exn + unit) \<times> store" where
  "collection_modify e s name md =
     (case modify_exn e of
        Some x \<Rightarrow> (Inl x, s)
      | None \<Rightarrow> (Inr (), update_collection name (\<lambda>c. c\<lparr>metadata := Some md\<rparr>) s))"

definition collection_add :: "env \<Rightarrow> store \<Rightarrow> string \<Rightarrow> batch \<Rightarrow> (exn + unit) \<times> store" where
  "collection_add e s name b =
     (case add_exn e of
        Some x \<Rightarrow> (Inl x, s)
      | None \<Rightarrow> (Inr (), update_collection name (\<lambda>c. c\<lparr>batches := batches c @ [b]\<rparr>) s))"

section \<open>incident.py: ChromaDbTicketProcessor\<close>

definition load_last_update_time :: "collection \<Rightarrow> pyval" where
  "load_last_update_time coll =
     (let md = (case metadata coll of None \<Rightarrow> [] | Some m \<Rightarrow> m)
      in dict_get md ''last_update_time'')"

definition save_last_update_time :: "env \<Rightarrow> store \<Rightarrow> string \<Rightarrow> string \<Rightarrow> (exn + unit) \<times> store" where
  "save_last_update_time e s name latest_time =
     collection_modify e s name [(''last_update_time'', PStr latest_time)]"

definition fetch_db_client :: "env \<Rightarrow> exn + unit" where
  "fetch_db_client e = (case connect_exn e of Some x \<Rightarrow> Inl x | None \<Rightarrow> Inr ())"

definition to_iso8601 :: "string \<Rightarrow> exn + string" where
  "to_iso8601 dt_str =
     (case strptime dt_str of
        None \<Rightarrow> Inl (ValueError (''time data '' @ dt_str @ '' does not match format''))
      | Some dt \<Rightarrow> Inr (strftime_iso dt))"

text \<open>\<open>re.search(r'\d+', s)\<close>: the first run of digits, as long as it goes.\<close>

definition extract_number :: "string \<Rightarrow> int" where
  "extract_number ticket_number =
     (case takeWhile is_digit (dropWhile (\<lambda>c. \<not> is_digit c) ticket_number) of
        [] \<Rightarrow> - 1
      | ds \<Rightarrow> int (int_of_digits ds))"

text \<open>\<open>max(xs, key=f)\<close> on a non-empty list: a later item replaces the best so far only
  when its key is greater, so the first of the greatest items is returned.\<close>

fun max_from :: "('a \<Rightarrow> int) \<Rightarrow> 'a \<Rightarrow> 'a list \<Rightarrow> 'a" where
  "max_from key best [] = best"
| "max_from key best (x # xs) = max_from key (if key x > key best then x else best) xs"

text \<open>\<open>x.get('number', '')\<close> and the key of \<open>max\<close>.\<close>

definition number_of :: "raw_ticket \<Rightarrow> string" where
  "number_of x = (case map_of x ''number'' of None \<Rightarrow> [] | Some n \<Rightarrow> n)"

definition ticket_key :: "raw_ticket \<Rightarrow> int" where
  "ticket_key x = extract_number (number_of x)"

fun latest_of :: "raw_ticket list \<Rightarrow> raw_ticket option" where
  "latest_of [] = None"
| "latest_of (x # xs) = Some (max_from ticket_key x xs)"

record ticket =
  ticket_number :: "string option"
  title :: "string option"
  query :: "string option"
  answer :: "string option"
  url :: string
  created :: pyval
  opened_at :: string

text \<open>
  \<open>dt.timestamp()\<close> of a naive datetime: the epoch seconds of the local time \<open>dt\<close>.
  The conversion looks up the local time one day before \<open>dt\<close>, so it raises
  \<open>ValueError\<close> for every \<open>dt\<close> of the first day of year 1, whatever the time zone;
  other refusals depend on the host and are given in \<open>env\<close>.
\<close>

definition timestamp :: "env \<Rightarrow> datetime \<Rightarrow> exn + pyval" where
  "timestamp e dt =
     (if dt < (1, 1, 2, 0, 0, 0) then Inl (ValueError ''year 0 is out of range'')
      else (case timestamp_exn e dt of
              Some x \<Rightarrow> Inl x
            | None \<Rightarrow> Inr (PTime dt)))"

text \<open>The body of the mapping loop. \<open>strptime\<close> of a missing \<open>sys_created_on\<close>
  (\<open>None\<close>) is a \<open>TypeError\<close>, of a text that is no timestamp a \<open>ValueError\<close>;
  \<open>created\<close> is computed before \<open>opened_at\<close>.\<close>

definition map_ticket :: "env \<Rightarrow> raw_ticket \<Rightarrow> exn + ticket" where
  "map_ticket e t =
     (case map_of t ''sys_created_on'' of
        None \<Rightarrow> Inl (TypeError ''strptime() argument 1 must be str, not None'')
      | Some c \<Rightarrow>
          (case strptime c of
             None \<Rightarrow> Inl (ValueError (''time data '' @ c @ '' does not match format''))
           | Some dt \<Rightarrow>
               (case timestamp e dt of
                  Inl x \<Rightarrow> Inl x
                | Inr created_at \<Rightarrow>
                    (case to_iso8601 c of
                       Inl x \<Rightarrow> Inl x
                     | Inr iso_text \<Rightarrow>
                         Inr \<lparr>ticket_number = map_of t ''number'',
                              title = map_of t ''short_description'',
                              query = map_of t ''description'',
                              answer = map_of t ''close_notes'',
                              url = snow_url e @ ''/incident_list.do?'',
                              created = created_at,
                              opened_at = iso_text\<rparr>))))"

fun map_tickets :: "env \<Rightarrow> raw_ticket list \<Rightarrow> exn + ticket list" where
  "map_tickets e [] = Inr []"
| "map_tickets e (t # ts) =
     (case map_ticket e t of
        Inl x \<Rightarrow> Inl x
      | Inr m \<Rightarrow>
          (case map_tickets e ts of
             Inl x \<Rightarrow> Inl x
           | Inr ms \<Rightarrow> Inr (m # ms)))"

definition fetch_tickets_from_servicenow ::
  "env \<Rightarrow> pyval \<Rightarrow> exn + ticket list \<times> raw_ticket option" where
  "fetch_tickets_from_servicenow e after_datetime =
     (case after_datetime of
        PStr a \<Rightarrow>
          (case split_char CHR '' '' a of
             [date_part, time_part] \<Rightarrow>
               (case source e date_part time_part of
                  Inl x \<Rightarrow> Inl x
                | Inr resp \<Rightarrow>
                    (if status_code resp = 200 then
                       (case result resp of
                          Inl x \<Rightarrow> Inl x
                        | Inr tickets \<Rightarrow>
                            (if tickets = [] then Inr ([], None)
                             else
                               (let latest_ticket = latest_of tickets
                                in (case map_tickets e tickets of
                                      Inl x \<Rightarrow> Inl x
                                    | Inr mapped_tickets \<Rightarrow> Inr (mapped_tickets, latest_ticket)))))
                     else Inr ([], None)))
           | [_] \<Rightarrow> Inl (ValueError ''not enough values to unpack (expected 2, got 1)'')
           | _ \<Rightarrow> Inl (ValueError ''too many values to unpack (expected 2)''))
      | _ \<Rightarrow> Inl (AttributeError ''object has no attribute split''))"

definition ticket_document :: "ticket \<Rightarrow> string" where
  "ticket_document t =
     ''Ticket query/question: '' @ format_opt (query t) @ '' '' @ [CHR 0x0A]
       @ '' - Ticket answer/solution: '' @ format_opt (answer t)"

definition pyval_of_opt :: "string option \<Rightarrow> pyval" where
  "pyval_of_opt x = (case x of None \<Rightarrow> PNone | Some s \<Rightarrow> PStr s)"

definition ticket_metadata :: "ticket \<Rightarrow> pydict" where
  "ticket_metadata t =
     [(''ticket_number'', pyval_of_opt (ticket_number t)),
      (''ticket_title'', pyval_of_opt (title t)),
      (''url'', PStr (url t)),
      (''created'', created t),
      (''opened_at'', PStr (opened_at t))]"

definition prepare_ticket_batches :: "ticket list \<Rightarrow> string list \<times> pydict list" where
  "prepare_ticket_batches ticket_data =
     (map ticket_document ticket_data, map ticket_metadata ticket_data)"

definition store_ticket_data ::
  "env \<Rightarrow> store \<Rightarrow> string \<Rightarrow> string list \<Rightarrow> pydict list \<Rightarrow> (exn + unit) \<times> store" where
  "store_ticket_data e s name docs metas =
     collection_add e s name
       \<lparr>ids = map str_nat [0 ..< length docs], documents = docs, metadatas = metas\<rparr>"

text \<open>
  The result dictionary of \<open>sync_tickets\<close>, without its \<open>timestamp\<close> (the clock).
  \<open>latest_update_time\<close> is \<open>None\<close> when the dictionary has no such key, and
  \<open>Some v\<close> when it holds \<open>v\<close>, itself a string or \<open>None\<close>.
\<close>

record outcome =
  success :: bool
  message :: string
  tickets_processed :: nat
  latest_update_time :: "string option option"

definition sync_error :: "exn \<Rightarrow> outcome" where
  "sync_error x =
     \<lparr>success = False,
      message = ''Error during ticket sync: '' @ str_exn x,
      tickets_processed = 0,
      latest_update_time = None\<rparr>"

definition ticket_collection_metadata :: pydict where
  "ticket_collection_metadata =
     [(''hnsw:space'', PStr ''cosine''), (''sync_threshold'', PInt 1000), (''batch_size'', PInt 100)]"

text \<open>Lines 157 to 169 of \<open>sync_tickets\<close>: the collection is fetched when its name is
  listed, created with the default metadata otherwise.\<close>

definition open_ticket_collection :: "env \<Rightarrow> store \<Rightarrow> (exn + collection) \<times> store" where
  "open_ticket_collection e s =
     (case list_collections e s of
        Inl x \<Rightarrow> (Inl x, s)
      | Inr coll_names \<Rightarrow>
          (if ''ticketData'' \<in> set coll_names
           then (get_collection e s ''ticketData'', s)
           else create_collection e s ''ticketData'' (Some ticket_collection_metadata)))"

definition default_cutoff :: string where
  "default_cutoff = ''2000-01-01 00:00:00''"

definition cutoff_of :: "collection \<Rightarrow> pyval" where
  "cutoff_of coll =
     (let cutoff_time = load_last_update_time coll
      in if \<not> truthy cutoff_time then PStr default_cutoff else cutoff_time)"

definition sync_tickets :: "env \<Rightarrow> store \<Rightarrow> outcome \<times> store" where
  "sync_tickets e s =
     (case fetch_db_client e of
        Inl x \<Rightarrow> (sync_error x, s)
      | Inr _ \<Rightarrow>
          (case open_ticket_collection e s of
             (Inl x, s1) \<Rightarrow> (sync_error x, s1)
           | (Inr coll, s1) \<Rightarrow>
               (case fetch_tickets_from_servicenow e (cutoff_of coll) of
                  Inl x \<Rightarrow> (sync_error x, s1)
                | Inr (tickets, latest) \<Rightarrow>
                    (if tickets \<noteq> [] then
                       (let (docs, metas) = prepare_ticket_batches tickets
                        in (case store_ticket_data e s1 ''ticketData'' docs metas of
                              (Inl x, s2) \<Rightarrow> (sync_error x, s2)
                            | (Inr _, s2) \<Rightarrow>
                                (case latest of
                                   None \<Rightarrow>
                                     (sync_error (AttributeError ''NoneType object has no attribute get''), s2)
                                 | Some l \<Rightarrow>
                                     (let latest_time = map_of l ''sys_created_on'';
                                          finished = \<lparr>success = True,
                                                  message = ''Tickets synced successfully'',
                                                  tickets_processed = length tickets,
                                                  latest_update_time = Some latest_time\<rparr>
                                      in (case latest_time of
                                            None \<Rightarrow> (finished, s2)
                                          | Some lt \<Rightarrow>
                                              (if lt = [] then (finished, s2)
                                               else
                                                 (case save_last_update_time e s2 ''ticketData'' lt of
                                                    (Inl x, s3) \<Rightarrow> (sync_error x, s3)
                                                  | (Inr _, s3) \<Rightarrow> (finished, s3))))))))
                     else
                       (\<lparr>success = True,
                         message = ''No new tickets to process'',
                         tickets_processed = 0,
                         latest_update_time = None\<rparr>, s1)))))"

section \<open>app.py: the checkpoint endpoints\<close>

text \<open>An endpoint returns its JSON body or raises \<open>HTTPException(status, detail)\<close>.\<close>

datatype 'a http = Ok 'a | HTTPException nat string

definition get_last_update_time :: "env \<Rightarrow> store \<Rightarrow> pyval http \<times> store" where
  "get_last_update_time e s =
     (case fetch_db_client e of
        Inl x \<Rightarrow> (HTTPException 500 (str_exn x), s)
      | Inr _ \<Rightarrow>
          (case get_or_create_collection e s ''ticketData'' None of
             (Inl x, s1) \<Rightarrow> (HTTPException 500 (str_exn x), s1)
           | (Inr coll, s1) \<Rightarrow> (Ok (load_last_update_time coll), s1)))"

text \<open>The two handlers of \<open>update_last_update_time\<close>: \<open>except ValueError\<close> comes
  first and answers 400 whatever raised the \<open>ValueError\<close>; any other exception is a 500.\<close>

definition update_failed :: "exn \<Rightarrow> string http" where
  "update_failed x =
     (if is_ValueError x
      then HTTPException 400 ''Invalid datetime format. Expected: YYYY-MM-DD HH:MM:SS''
      else HTTPException 500 (str_exn x))"

definition update_last_update_time :: "env \<Rightarrow> store \<Rightarrow> pydict \<Rightarrow> string http \<times> store" where
  "update_last_update_time e s payload =
     (case dict_get payload ''last_update_time'' of
        PStr new_time \<Rightarrow>
          (case strptime new_time of
             None \<Rightarrow> (update_failed (ValueError (''time data '' @ new_time @ '' does not match format'')), s)
           | Some _ \<Rightarrow>
               (case fetch_db_client e of
                  Inl x \<Rightarrow> (update_failed x, s)
                | Inr _ \<Rightarrow>
                    (case get_or_create_collection e s ''ticketData'' None of
                       (Inl x, s1) \<Rightarrow> (update_failed x, s1)
                     | (Inr coll, s1) \<Rightarrow>
                         (case save_last_update_time e s1 ''ticketData'' new_time of
                            (Inl x, s2) \<Rightarrow> (update_failed x, s2)
                          | (Inr _, s2) \<Rightarrow> (Ok new_time, s2)))))
      | v \<Rightarrow>
          (update_failed (TypeError (''strptime() argument 1 must be str, not '' @ arg_type_name v)), s))"

section \<open>document.py: PDFProcessor\<close>

subsection \<open>The text splitter (langchain's RecursiveCharacterTextSplitter)\<close>

text \<open>
  \<open>split_text\<close> builds the library's splitter with separators paragraph break, line
  break and space, chunk size 500 and overlap 100; the splitter keeps each separator
  at the start of the piece that follows it and strips the chunks it joins (the
  library's defaults). Its algorithm, as the library has it:
  \<^item> the separator is the first of the list that occurs in the text, the last one if
    none does; the separators after it are left for the pieces that are too long;
  \<^item> the text is cut at every occurrence of the separator;
  \<^item> pieces shorter than the chunk size are collected and merged into chunks; a
    piece that is not shorter is split again with the separators that are left, or
    kept whole when none is left.
\<close>

definition chunk_size :: nat where
  "chunk_size = 500"

definition chunk_overlap :: nat where
  "chunk_overlap = 100"

definition separators :: "string list" where
  "separators = [[CHR 0x0A, CHR 0x0A], [CHR 0x0A], '' '']"

text \<open>\<open>re.search(re.escape(sep), text)\<close>: does \<open>sep\<close> occur in \<open>text\<close>.\<close>

fun occurs :: "string \<Rightarrow> string \<Rightarrow> bool" where
  "occurs sep [] = (sep = [])"
| "occurs sep (x # xs) = (take (length sep) (x # xs) = sep \<or> occurs sep xs)"

text \<open>\<open>re.split\<close> at the occurrences of a non-empty separator, found from the left
  without overlap: the pieces between them, empty ones included.\<close>

function split_str :: "string \<Rightarrow> string \<Rightarrow> string list" where
  "split_str sep s =
     (if sep = [] then [s]
      else if s = [] then [[]]
      else if take (length sep) s = sep then [] # split_str sep (drop (length sep) s)
      else (case split_str sep (tl s) of
              [] \<Rightarrow> [[hd s]]
            | p # ps \<Rightarrow> (hd s # p) # ps))"
  by pat_completeness auto
termination
  by (relation "measure (\<lambda>(sep, s). length s)") auto

declare split_str.simps [simp del]

text \<open>\<open>_split_text_with_regex\<close> with \<open>keep_separator=True\<close>: the first piece, then every
  other piece with the separator before it; empty strings are left out.\<close>

definition split_text_with_regex :: "string \<Rightarrow> string \<Rightarrow> string list" where
  "split_text_with_regex sep text =
     filter (\<lambda>p. p \<noteq> [])
       (case split_str sep text of
          [] \<Rightarrow> []
        | first # rest \<Rightarrow> first # map (\<lambda>p. sep @ p) rest)"

text \<open>\<open>_join_docs\<close> with the empty separator: the pieces joined and stripped, \<open>None\<close>
  when nothing is left.\<close>

definition join_docs :: "string list \<Rightarrow> string option" where
  "join_docs docs = (let text = strip (concat docs) in if text = [] then None else Some text)"

text \<open>The inner \<open>while\<close> of \<open>_merge_splits\<close>: pieces leave the front of the current chunk
  while it is longer than the overlap, or while the next piece would not fit.
  \<open>total\<close> (here \<open>tot\<close>) is the length of the pieces in \<open>current_doc\<close>, so the loop has stopped
  when none is left.\<close>

fun pop_front :: "nat \<Rightarrow> string list \<Rightarrow> nat \<Rightarrow> string list \<times> nat" where
  "pop_front len [] tot = ([], tot)"
| "pop_front len (d # ds) tot =
     (if tot > chunk_overlap \<or> (tot + len > chunk_size \<and> tot > 0)
      then pop_front len ds (tot - length d)
      else (d # ds, tot))"

definition append_doc :: "string list \<Rightarrow> string list \<Rightarrow> string list" where
  "append_doc docs current_doc =
     (case join_docs current_doc of None \<Rightarrow> docs | Some doc \<Rightarrow> docs @ [doc])"

fun merge_loop :: "string list \<Rightarrow> string list \<Rightarrow> string list \<Rightarrow> nat \<Rightarrow> string list" where
  "merge_loop [] docs current_doc tot = append_doc docs current_doc"
| "merge_loop (d # ds) docs current_doc tot =
     (let len = length d in
      if tot + len > chunk_size \<and> current_doc \<noteq> [] then
        (case pop_front len current_doc tot of
           (current_doc', tot') \<Rightarrow>
             merge_loop ds (append_doc docs current_doc) (current_doc' @ [d]) (tot' + len))
      else merge_loop ds docs (current_doc @ [d]) (tot + len))"

definition merge_splits :: "string list \<Rightarrow> string list" where
  "merge_splits splits = merge_loop splits [] [] 0"

definition flush :: "string list \<Rightarrow> string list" where
  "flush good_splits = (if good_splits \<noteq> [] then merge_splits good_splits else [])"

text \<open>The \<open>for s in splits\<close> loop of \<open>_split_text\<close>; \<open>deeper\<close> splits a long piece with
  the separators that are left, and is \<open>None\<close> when none is left.\<close>

fun split_loop :: "(string \<Rightarrow> string list) option \<Rightarrow> string list \<Rightarrow> string list \<Rightarrow> string list" where
  "split_loop deeper [] good_splits = flush good_splits"
| "split_loop deeper (p # ps) good_splits =
     (if length p < chunk_size then split_loop deeper ps (good_splits @ [p])
      else flush good_splits
           @ (case deeper of None \<Rightarrow> [p] | Some f \<Rightarrow> f p)
           @ split_loop deeper ps [])"

text \<open>\<open>_split_text(text, separators)\<close>. A separator that does not occur in the text is
  passed over, which is the same search in the rest of the list; the last separator
  is used whether it occurs or not.\<close>

fun recursive_split :: "string list \<Rightarrow> string \<Rightarrow> string list" where
  "recursive_split [] text = [text]"
| "recursive_split (sep # seps) text =
     (if occurs sep text \<or> seps = []
      then split_loop (if seps = [] then None else Some (\<lambda>p. recursive_split seps p))
             (split_text_with_regex sep text) []
      else recursive_split seps text)"

definition split_text :: "string \<Rightarrow> string list" where
  "split_text text = filter (\<lambda>chunk. strip chunk \<noteq> []) (recursive_split separators text)"

subsection \<open>Storing the chunks\<close>

record summary =
  source_name :: string
  chunks_stored :: nat
  collection_name :: string

definition store_chunks ::
  "env \<Rightarrow> store \<Rightarrow> string list \<Rightarrow> string \<Rightarrow> string \<Rightarrow> (exn + summary) \<times> store" where
  "store_chunks e s chunks src name =
     (case get_or_create_collection e s name (Some [(''hnsw:space'', PStr ''cosine'')]) of
        (Inl x, s1) \<Rightarrow> (Inl x, s1)
      | (Inr coll, s1) \<Rightarrow>
          (case collection_add e s1 name
                  \<lparr>ids = map (\<lambda>i. src @ ''_'' @ str_nat i) [0 ..< length chunks],
                   documents = chunks,
                   metadatas = map (\<lambda>_. [(''source'', PStr src)]) chunks\<rparr> of
             (Inl x, s2) \<Rightarrow> (Inl x, s2)
           | (Inr _, s2) \<Rightarrow>
               (Inr \<lparr>source_name = src, chunks_stored = length chunks, collection_name = name\<rparr>, s2)))"

text \<open>\<open>sync_pdf\<close>, given what \<open>extract_text\<close> read from the PDF (or its exception).\<close>

definition sync_pdf ::
  "env \<Rightarrow> store \<Rightarrow> exn + string \<Rightarrow> string \<Rightarrow> string \<Rightarrow> (exn + summary) \<times> store" where
  "sync_pdf e s extracted file_name name =
     (case extracted of
        Inl x \<Rightarrow> (Inl x, s)
      | Inr text \<Rightarrow>
          (let chunks = split_text text
           in (case fetch_db_client e of
                 Inl x \<Rightarrow> (Inl x, s)
               | Inr _ \<Rightarrow> store_chunks e s chunks file_name name)))"

section \<open>Observations on the store\<close>

text \<open>The metadata map of a collection of the store (empty when the collection does
  not exist or has no metadata), and the checkpoint kept for the ticket collection.\<close>

definition metadata_of :: "store \<Rightarrow> string \<Rightarrow> pydict" where
  "metadata_of s name =
     (case map_of s name of
        None \<Rightarrow> []
      | Some c \<Rightarrow> (case metadata c of None \<Rightarrow> [] | Some m \<Rightarrow> m))"

definition stored_checkpoint :: "store \<Rightarrow> pyval" where
  "stored_checkpoint s = dict_get (metadata_of s ''ticketData'') ''last_update_time''"

text \<open>The cutoff the next sync run will use: the stored checkpoint, or the default
  when there is none.\<close>

definition current_cutoff :: "store \<Rightarrow> pyval" where
  "current_cutoff s =
     (if \<not> truthy (stored_checkpoint s) then PStr default_cutoff else stored_checkpoint s)"

text \<open>An environment in which no call fails and the record source has nothing new.\<close>

definition quiet_env :: env where
  "quiet_env =
     \<lparr>connect_exn = None, list_exn = None, open_exn = None,
      source = (\<lambda>date_part time_part. Inr \<lparr>status_code = 200, result = Inr []\<rparr>),
      add_exn = None, modify_exn = None, timestamp_exn = (\<lambda>dt. None),
      snow_url = ''https://example.service-now.com''\<rparr>"

text \<open>The store after the first sync run created the ticket collection.\<close>

definition fresh_store :: store where
  "fresh_store = [(''ticketData'', \<lparr>metadata = Some ticket_collection_metadata, batches = []\<rparr>)]"

text \<open>A store whose ticket collection holds a checkpoint and nothing else.\<close>

definition checkpoint_store :: "string \<Rightarrow> store" where
  "checkpoint_store t =
     [(''ticketData'', \<lparr>metadata = Some [(''last_update_time'', PStr t)], batches = []\<rparr>)]"

text \<open>The record source answers every request with status 404.\<close>

definition env_404 :: env where
  "env_404 = quiet_env\<lparr>source := \<lambda>date_part time_part. Inr \<lparr>status_code = 404, result = Inl (ValueError ''no JSON'')\<rparr>\<rparr>"

text \<open>A resolved incident of the record source, and an environment in which no
  call fails and the source answers every request with the given records.\<close>

definition one_ticket :: raw_ticket where
  "one_ticket =
     [(''number'', ''INC0010001''), (''short_description'', ''VPN drops''),
      (''description'', ''The VPN drops every hour''), (''close_notes'', ''Renewed the certificate''),
      (''sys_created_on'', ''2025-07-04 09:30:00''), (''opened_at'', ''2025-07-04 09:31:12'')]"

definition env_with :: "raw_ticket list \<Rightarrow> env" where
  "env_with ts =
     quiet_env\<lparr>source := \<lambda>date_part time_part. Inr \<lparr>status_code = 200, result = Inr ts\<rparr>\<rparr>"

text \<open>The same environment, but \<open>collection.add\<close> raises.\<close>

definition env_add_fails :: "raw_ticket list \<Rightarrow> env" where
  "env_add_fails ts = (env_with ts)\<lparr>add_exn := Some (OtherError ''store down'')\<rparr>"

text \<open>A record created before the checkpoint of \<open>checkpoint_store ''2025-07-03 15:16:53''\<close>.\<close>

definition stale_ticket :: raw_ticket where
  "stale_ticket =
     [(''number'', ''INC0009000''), (''short_description'', ''Printer offline''),
      (''description'', ''The printer is offline''), (''close_notes'', ''Restarted the spooler''),
      (''sys_created_on'', ''2024-01-01 08:00:00''), (''opened_at'', ''2024-01-01 08:00:41'')]"

subsection \<open>Reading checkpoints as timestamps\<close>

text \<open>\<open>later a b\<close>: both are texts that \<open>strptime\<close> accepts, and \<open>b\<close> is the later
  timestamp. \<open>not_earlier a b\<close>: \<open>b\<close> is \<open>a\<close> itself or later.\<close>

definition later :: "pyval \<Rightarrow> pyval \<Rightarrow> bool" where
  "later a b =
     (case a of
        PStr x \<Rightarrow>
          (case b of
             PStr y \<Rightarrow>
               (case strptime x of
                  None \<Rightarrow> False
                | Some dx \<Rightarrow> (case strptime y of None \<Rightarrow> False | Some dy \<Rightarrow> dx < dy))
           | _ \<Rightarrow> False)
      | _ \<Rightarrow> False)"

definition not_earlier :: "pyval \<Rightarrow> pyval \<Rightarrow> bool" where
  "not_earlier a b = (a = b \<or> later a b)"

text \<open>The hypothesis on the record source: the records it returns for the cutoff were
  all created strictly after the cutoff.\<close>

definition created_after :: "string \<Rightarrow> raw_ticket \<Rightarrow> bool" where
  "created_after cutoff x =
     (case map_of x ''sys_created_on'' of
        None \<Rightarrow> False
      | Some c \<Rightarrow> later (PStr cutoff) (PStr c))"

definition source_is_fresh :: "env \<Rightarrow> pyval \<Rightarrow> bool" where
  "source_is_fresh e cutoff =
     (case cutoff of
        PStr a \<Rightarrow>
          (case split_char CHR '' '' a of
             [date_part, time_part] \<Rightarrow>
               (case source e date_part time_part of
                  Inl _ \<Rightarrow> True
                | Inr resp \<Rightarrow>
                    (case result resp of
                       Inl _ \<Rightarrow> True
                     | Inr ts \<Rightarrow> list_all (created_after a) ts))
           | _ \<Rightarrow> True)
      | _ \<Rightarrow> True)"

text \<open>A sequence of sync runs on one store, each with its own environment, and the
  hypothesis on the source for every run of the sequence.\<close>

fun sync_runs :: "env list \<Rightarrow> store \<Rightarrow> store" where
  "sync_runs [] s = s"
| "sync_runs (e # es) s = sync_runs es (snd (sync_tickets e s))"

fun fresh_sources :: "env list \<Rightarrow> store \<Rightarrow> bool" where
  "fresh_sources [] s = True"
| "fresh_sources (e # es) s =
     (source_is_fresh e (current_cutoff s) \<and> fresh_sources es (snd (sync_tickets e s)))"

text \<open>A record of the source with no \<open>sys_created_on\<close> field.\<close>

definition ticket_without_timestamp :: raw_ticket where
  "ticket_without_timestamp =
     [(''number'', ''INC0010002''), (''short_description'', ''Mail bounce''),
      (''description'', ''Mail to the list bounces''), (''close_notes'', ''Fixed the alias'')]"

text \<open>A record with a number and a creation timestamp and no other field, and an
  environment whose source answers with the given status.\<close>

definition sparse_ticket :: raw_ticket where
  "sparse_ticket = [(''number'', ''INC0010003''), (''sys_created_on'', ''2025-07-05 11:00:00'')]"

definition env_status :: "nat \<Rightarrow> raw_ticket list \<Rightarrow> env" where
  "env_status code ts =
     quiet_env\<lparr>source := \<lambda>date_part time_part. Inr \<lparr>status_code = code, result = Inr ts\<rparr>\<rparr>"

subsection \<open>Words of a text\<close>

text \<open>The characters the splitter cuts at, and the length of the longest run of
  other characters in a text.\<close>

definition sep_char :: "char \<Rightarrow> bool" where
  "sep_char c = (c = CHR '' '' \<or> c = CHR 0x0A)"

fun longest_run :: "nat \<Rightarrow> string \<Rightarrow> nat" where
  "longest_run cur [] = cur"
| "longest_run cur (c # cs) =
     (if sep_char c then max cur (longest_run 0 cs) else longest_run (Suc cur) cs)"

definition longest_word :: "string \<Rightarrow> nat" where
  "longest_word s = longest_run 0 s"

subsection \<open>Overlap of two chunks\<close>

text \<open>\<open>overlap_at_least n a b\<close>: the last \<open>k\<close> characters of \<open>a\<close> are the first \<open>k\<close>
  characters of \<open>b\<close>, for some \<open>k\<close> of at least \<open>n\<close>.\<close>

definition overlap_at_least :: "nat \<Rightarrow> string \<Rightarrow> string \<Rightarrow> bool" where
  "overlap_at_least n a b =
     (\<exists>k \<in> set [n ..< Suc (min (length a) (length b))]. drop (length a - k) a = take k b)"

subsection \<open>The timestamp format as the specification words it\<close>





section \<open>Selection of the latest record\<close>

lemma max_from_mem: "max_from key b xs \<in> set (b # xs)"
  by (induction xs arbitrary: b) auto

lemma max_from_ge_best: "key b \<le> key (max_from key b xs)"
proof (induction xs arbitrary: b)
  case Nil
  show ?case by simp
next
  case (Cons x xs)
  have "key b \<le> key (if key x > key b then x else b)" by simp
  also have "\<dots> \<le> key (max_from key (if key x > key b then x else b) xs)"
    by (rule Cons.IH)
  finally show ?case by simp
qed

lemma max_from_ge: "y \<in> set (b # xs) \<Longrightarrow> key y \<le> key (max_from key b xs)"
proof (induction xs arbitrary: b)
  case Nil
  then show ?case by simp
next
  case (Cons x xs)
  let ?b = "if key x > key b then x else b"
  from Cons.prems have "y = b \<or> y = x \<or> y \<in> set xs" by auto
  then show ?case
  proof (elim disjE)
    assume "y = b"
    then have "key y \<le> key ?b" by simp
    also have "\<dots> \<le> key (max_from key ?b xs)" by (rule max_from_ge_best)
    finally show ?thesis by simp
  next
    assume "y = x"
    then have "key y \<le> key ?b" by simp
    also have "\<dots> \<le> key (max_from key ?b xs)" by (rule max_from_ge_best)
    finally show ?thesis by simp
  next
    assume "y \<in> set xs"
    then have "y \<in> set (?b # xs)" by simp
    then have "key y \<le> key (max_from key ?b xs)" by (rule Cons.IH)
    then show ?thesis by simp
  qed
qed

lemma latest_of_Some:
  assumes "tickets \<noteq> []"
  shows "\<exists>l. latest_of tickets = Some l \<and> l \<in> set tickets
           \<and> (\<forall>t \<in> set tickets. ticket_key t \<le> ticket_key l)"
proof (cases tickets)
  case Nil
  with assms show ?thesis by simp
next
  case (Cons x xs)
  have "latest_of tickets = Some (max_from ticket_key x xs)" using Cons by simp
  moreover have "max_from ticket_key x xs \<in> set tickets"
    using Cons max_from_mem [of ticket_key x xs] by simp
  moreover have "\<forall>t \<in> set tickets. ticket_key t \<le> ticket_key (max_from ticket_key x xs)"
    using Cons max_from_ge [of _ x xs ticket_key] by simp
  ultimately show ?thesis by blast
qed

lemma extract_number_examples:
  "extract_number ''INC5'' = 5" "extract_number ''INC100'' = 100" "extract_number ''INC23'' = 23"
  by code_simp+

text \<open>
  Claim C4. For a non-empty batch the record selected as latest is a record of the
  batch whose ordinal (\<open>extract_number\<close> of its number) is the greatest of the batch.
  The order of the batch does not matter: any rearrangement selects a record of the
  same, greatest ordinal, and the same record when no two records of the batch share
  an ordinal. A batch whose numbers are INC5, INC100 and INC23, in any order, selects
  INC100, although INC5 is the greatest as a string.
\<close>

theorem latest_is_max_ordinal:
  assumes "tickets \<noteq> []"
  shows "\<exists>l. latest_of tickets = Some l \<and> l \<in> set tickets
           \<and> (\<forall>t \<in> set tickets. ticket_key t \<le> ticket_key l)
           \<and> (\<forall>tickets'. mset tickets' = mset tickets \<longrightarrow>
                 (\<exists>l'. latest_of tickets' = Some l' \<and> ticket_key l' = ticket_key l
                    \<and> (inj_on ticket_key (set tickets) \<longrightarrow> l' = l)))
           \<and> (mset (map number_of tickets) = mset [''INC5'', ''INC100'', ''INC23'']
                 \<longrightarrow> number_of l = ''INC100'')"
proof -
  from latest_of_Some [OF assms] obtain l
    where l: "latest_of tickets = Some l" "l \<in> set tickets"
      and lmax: "\<And>t. t \<in> set tickets \<Longrightarrow> ticket_key t \<le> ticket_key l"
    by blast
  have perm: "\<exists>l'. latest_of tickets' = Some l' \<and> ticket_key l' = ticket_key l
                    \<and> (inj_on ticket_key (set tickets) \<longrightarrow> l' = l)"
    if eq: "mset tickets' = mset tickets" for tickets'
  proof -
    from eq have seteq: "set tickets' = set tickets" by (rule mset_eq_setD)
    with assms have "tickets' \<noteq> []" by auto
    from latest_of_Some [OF this] obtain l'
      where l': "latest_of tickets' = Some l'" "l' \<in> set tickets'"
        and l'max: "\<And>t. t \<in> set tickets' \<Longrightarrow> ticket_key t \<le> ticket_key l'"
      by blast
    have "ticket_key l \<le> ticket_key l'" using l'max l(2) seteq by simp
    moreover have "ticket_key l' \<le> ticket_key l" using lmax l'(2) seteq by simp
    ultimately have k: "ticket_key l' = ticket_key l" by simp
    have "l' = l" if "inj_on ticket_key (set tickets)"
      using that k l(2) l'(2) seteq by (auto dest: inj_onD)
    with l'(1) k show ?thesis by blast
  qed
  have ex: "number_of l = ''INC100''"
    if m: "mset (map number_of tickets) = mset [''INC5'', ''INC100'', ''INC23'']"
  proof -
    from m have "set (map number_of tickets) = set [''INC5'', ''INC100'', ''INC23'']"
      by (rule mset_eq_setD)
    then have s: "number_of ` set tickets = {''INC5'', ''INC100'', ''INC23''}" by simp
    then have "''INC100'' \<in> number_of ` set tickets" by simp
    then obtain t where t: "t \<in> set tickets" "number_of t = ''INC100''" by auto
    have "ticket_key t = 100" using t(2) extract_number_examples by (simp add: ticket_key_def)
    with lmax [OF t(1)] have ge: "100 \<le> ticket_key l" by simp
    from l(2) s have "number_of l \<in> {''INC5'', ''INC100'', ''INC23''}" by blast
    then show ?thesis using ge extract_number_examples by (auto simp: ticket_key_def)
  qed
  from l lmax perm ex show ?thesis by blast
qed

theorem latest_is_max_ordinal_witness:
  "[[(''number'', ''INC5''), (''sys_created_on'', ''2025-01-03 10:00:00'')],
    [(''number'', ''INC100''), (''sys_created_on'', ''2025-01-02 10:00:00'')],
    [(''number'', ''INC23''), (''sys_created_on'', ''2025-01-04 10:00:00'')]] \<noteq> ([] :: raw_ticket list)
   \<and> (\<exists>l. latest_of
          [[(''number'', ''INC5''), (''sys_created_on'', ''2025-01-03 10:00:00'')],
           [(''number'', ''INC100''), (''sys_created_on'', ''2025-01-02 10:00:00'')],
           [(''number'', ''INC23''), (''sys_created_on'', ''2025-01-04 10:00:00'')]] = Some l
        \<and> number_of l = ''INC100'')"
  using latest_is_max_ordinal
    [of "[[(''number'', ''INC5''), (''sys_created_on'', ''2025-01-03 10:00:00'')],
          [(''number'', ''INC100''), (''sys_created_on'', ''2025-01-02 10:00:00'')],
          [(''number'', ''INC23''), (''sys_created_on'', ''2025-01-04 10:00:00'')]]"]
  by (auto simp: number_of_def)

section \<open>The store operations\<close>

lemma map_of_update_collection:
  "map_of (update_collection name f s) n =
     (if n = name then map_option f (map_of s n) else map_of s n)"
  by (induction s) (auto simp: update_collection_def)

lemma map_fst_update_collection: "map fst (update_collection name f s) = map fst s"
  by (induction s) (auto simp: update_collection_def)

lemma map_of_snoc_new:
  "map_of s name = None \<Longrightarrow>
   map_of (s @ [(name, c)]) n = (if n = name then Some c else map_of s n)"
  by (auto simp: map_add_def split: option.splits)

lemma in_names_iff: "name \<in> fst ` set s \<longleftrightarrow> map_of s name \<noteq> None"
  by (simp add: map_of_eq_None_iff)

lemma metadata_of_update_collection:
  assumes "\<And>c. metadata (f c) = metadata c"
  shows "metadata_of (update_collection name f s) n = metadata_of s n"
  by (cases "map_of s n") (auto simp: metadata_of_def map_of_update_collection assms)

section \<open>Saving the checkpoint\<close>

text \<open>
  Claim C3, as the code has it. \<open>save_last_update_time\<close> hands the store a map with
  the single key \<open>last_update_time\<close>, and the store sets the collection's metadata
  to that map. When the call returns, the metadata of an existing collection is
  exactly \<open>{last_update_time: t}\<close>: the checkpoint holds the new value and no other
  key is left. Other collections and the collection's batches are as before, and a
  call that raises changes nothing.
\<close>

theorem save_last_update_time_replaces:
  assumes "save_last_update_time e s name t = (r, s')"
  shows "(r = Inr () \<and> map_of s name \<noteq> None \<longrightarrow>
             metadata_of s' name = [(''last_update_time'', PStr t)])
         \<and> (\<forall>n. n \<noteq> name \<longrightarrow> map_of s' n = map_of s n)
         \<and> map_option batches (map_of s' name) = map_option batches (map_of s name)
         \<and> (\<forall>x. r = Inl x \<longrightarrow> s' = s)"
  using assms
  by (auto simp: save_last_update_time_def collection_modify_def metadata_of_def
      map_of_update_collection option.map_comp comp_def split: option.splits)

theorem save_last_update_time_replaces_witness:
  "save_last_update_time quiet_env fresh_store ''ticketData'' ''2025-07-03 15:16:53''
     = (Inr (), [(''ticketData'',
          \<lparr>metadata = Some [(''last_update_time'', PStr ''2025-07-03 15:16:53'')], batches = []\<rparr>)])
   \<and> metadata_of [(''ticketData'',
          \<lparr>metadata = Some [(''last_update_time'', PStr ''2025-07-03 15:16:53'')], batches = []\<rparr>)]
        ''ticketData''
       = [(''last_update_time'', PStr ''2025-07-03 15:16:53'')]"
proof -
  have run: "save_last_update_time quiet_env fresh_store ''ticketData'' ''2025-07-03 15:16:53''
     = (Inr (), [(''ticketData'',
          \<lparr>metadata = Some [(''last_update_time'', PStr ''2025-07-03 15:16:53'')], batches = []\<rparr>)])"
    by (simp add: save_last_update_time_def collection_modify_def quiet_env_def
        fresh_store_def update_collection_def)
  have ex: "map_of fresh_store ''ticketData'' \<noteq> None" by (simp add: fresh_store_def)
  from save_last_update_time_replaces [OF run] ex run show ?thesis by simp
qed

text \<open>
  The claim as the spec states it fails: on the collection the first sync run
  created, with \<open>hnsw:space\<close>, \<open>sync_threshold\<close> and \<open>batch_size\<close> in its metadata,
  a save that returns leaves no \<open>hnsw:space\<close> key.
\<close>

theorem save_drops_sibling_keys:
  "map_of (metadata_of fresh_store ''ticketData'') ''hnsw:space'' = Some (PStr ''cosine'')
   \<and> fst (save_last_update_time quiet_env fresh_store ''ticketData'' ''2025-07-03 15:16:53'') = Inr ()
   \<and> map_of (metadata_of (snd (save_last_update_time quiet_env fresh_store ''ticketData''
               ''2025-07-03 15:16:53'')) ''ticketData'') ''hnsw:space'' = None"
  by (simp add: save_last_update_time_def collection_modify_def metadata_of_def quiet_env_def
      fresh_store_def ticket_collection_metadata_def update_collection_def)

section \<open>Get-or-create of a collection\<close>

lemma get_or_create_existing:
  assumes "map_of s name = Some c"
  shows "get_or_create_collection e s name md =
           (case open_exn e of Some x \<Rightarrow> (Inl x, s) | None \<Rightarrow> (Inr c, s))"
  using assms by (simp add: get_or_create_collection_def split: option.splits)

lemma get_or_create_missing:
  assumes "map_of s name = None" "open_exn e = None"
  shows "get_or_create_collection e s name md =
           (Inr \<lparr>metadata = md, batches = []\<rparr>, s @ [(name, \<lparr>metadata = md, batches = []\<rparr>)])"
  using assms by (simp add: get_or_create_collection_def Let_def)

lemma open_ticket_collection_existing:
  assumes "map_of s ''ticketData'' = Some c"
  shows "open_ticket_collection e s =
           (case list_exn e of Some x \<Rightarrow> (Inl x, s)
            | None \<Rightarrow> (case open_exn e of Some x \<Rightarrow> (Inl x, s) | None \<Rightarrow> (Inr c, s)))"
  using assms
  by (auto simp: open_ticket_collection_def list_collections_def get_collection_def in_names_iff
      split: option.splits)

lemma open_ticket_collection_missing:
  assumes "map_of s ''ticketData'' = None"
  shows "open_ticket_collection e s =
           (case list_exn e of Some x \<Rightarrow> (Inl x, s)
            | None \<Rightarrow> (case open_exn e of Some x \<Rightarrow> (Inl x, s)
                | None \<Rightarrow> (Inr \<lparr>metadata = Some ticket_collection_metadata, batches = []\<rparr>,
                     s @ [(''ticketData'',
                           \<lparr>metadata = Some ticket_collection_metadata, batches = []\<rparr>)])))"
  using assms
  by (auto simp: open_ticket_collection_def list_collections_def create_collection_def in_names_iff
      Let_def split: option.splits)

lemma metadata_of_add:
  "collection_add e s name b = (r, s') \<Longrightarrow> metadata_of s' n = metadata_of s n"
  by (auto simp: collection_add_def metadata_of_update_collection split: option.splits)

lemma store_chunks_existing_metadata:
  assumes "map_of s name = Some c"
  shows "metadata_of (snd (store_chunks e s chunks src name)) name = metadata_of s name"
proof (cases "open_exn e")
  case None
  obtain r s2 where add: "collection_add e s name
                  \<lparr>ids = map (\<lambda>i. src @ ''_'' @ str_nat i) [0 ..< length chunks],
                   documents = chunks,
                   metadatas = map (\<lambda>_. [(''source'', PStr src)]) chunks\<rparr> = (r, s2)"
    by (cases "collection_add e s name
                  \<lparr>ids = map (\<lambda>i. src @ ''_'' @ str_nat i) [0 ..< length chunks],
                   documents = chunks,
                   metadatas = map (\<lambda>_. [(''source'', PStr src)]) chunks\<rparr>")
  from metadata_of_add [OF add] have "metadata_of s2 name = metadata_of s name" .
  with None assms add show ?thesis
    by (auto simp: store_chunks_def get_or_create_existing split: sum.splits)
next
  case (Some x)
  with assms show ?thesis by (simp add: store_chunks_def get_or_create_existing)
qed

text \<open>
  Claim C6. Get-or-create of a collection that exists returns the stored collection
  and leaves the store as it is, whatever metadata the call supplies: this holds for
  the library's \<open>get_or_create_collection\<close> (the checkpoint endpoints and
  \<open>store_chunks\<close>) and for the test-then-get of \<open>sync_tickets\<close>. \<open>store_chunks\<close>,
  which supplies \<open>{hnsw:space: cosine}\<close>, leaves the metadata of an existing
  collection as it was. The supplied metadata is what a collection gets when the
  call creates it.
\<close>

theorem get_or_create_keeps_existing:
  "(map_of s name = Some c \<longrightarrow>
      (\<forall>md. snd (get_or_create_collection e s name md) = s
           \<and> (open_exn e = None \<longrightarrow> fst (get_or_create_collection e s name md) = Inr c))
      \<and> metadata_of (snd (store_chunks e s chunks src name)) name = metadata_of s name)
   \<and> (map_of s ''ticketData'' = Some c \<longrightarrow>
        snd (open_ticket_collection e s) = s
        \<and> (list_exn e = None \<and> open_exn e = None \<longrightarrow> fst (open_ticket_collection e s) = Inr c))
   \<and> (map_of s name = None \<and> open_exn e = None \<longrightarrow>
        metadata_of (snd (get_or_create_collection e s name (Some md'))) name = md')
   \<and> (map_of s ''ticketData'' = None \<and> list_exn e = None \<and> open_exn e = None \<longrightarrow>
        metadata_of (snd (open_ticket_collection e s)) ''ticketData'' = ticket_collection_metadata)"
proof -
  have a: "snd (get_or_create_collection e s name md) = s
           \<and> (open_exn e = None \<longrightarrow> fst (get_or_create_collection e s name md) = Inr c)"
    if "map_of s name = Some c" for md
    using that by (simp add: get_or_create_existing split: option.splits)
  have b: "snd (open_ticket_collection e s) = s
           \<and> (list_exn e = None \<and> open_exn e = None \<longrightarrow> fst (open_ticket_collection e s) = Inr c)"
    if "map_of s ''ticketData'' = Some c"
    using that by (simp add: open_ticket_collection_existing split: option.splits)
  have c: "metadata_of (snd (get_or_create_collection e s name (Some md'))) name = md'"
    if "map_of s name = None" "open_exn e = None"
    using that by (simp add: get_or_create_missing metadata_of_def map_of_snoc_new del: map_of_append)
  have d: "metadata_of (snd (open_ticket_collection e s)) ''ticketData'' = ticket_collection_metadata"
    if "map_of s ''ticketData'' = None" "list_exn e = None" "open_exn e = None"
    using that
    by (simp add: open_ticket_collection_missing metadata_of_def map_of_snoc_new del: map_of_append)
  from a b c d store_chunks_existing_metadata show ?thesis by blast
qed

theorem get_or_create_keeps_existing_witness:
  "map_of (checkpoint_store ''2025-07-03 15:16:53'') ''ticketData''
      = Some \<lparr>metadata = Some [(''last_update_time'', PStr ''2025-07-03 15:16:53'')], batches = []\<rparr>
   \<and> snd (get_or_create_collection quiet_env (checkpoint_store ''2025-07-03 15:16:53'') ''ticketData''
            (Some [(''hnsw:space'', PStr ''l2'')])) = checkpoint_store ''2025-07-03 15:16:53''
   \<and> metadata_of (snd (store_chunks quiet_env (checkpoint_store ''2025-07-03 15:16:53'')
                          [''some text''] ''a.pdf'' ''ticketData'')) ''ticketData''
        = [(''last_update_time'', PStr ''2025-07-03 15:16:53'')]
   \<and> snd (open_ticket_collection quiet_env (checkpoint_store ''2025-07-03 15:16:53''))
        = checkpoint_store ''2025-07-03 15:16:53''
   \<and> map_of ([] :: store) ''ticketData'' = None
   \<and> metadata_of (snd (open_ticket_collection quiet_env [])) ''ticketData'' = ticket_collection_metadata"
proof -
  let ?s = "checkpoint_store ''2025-07-03 15:16:53''"
  let ?c = "\<lparr>metadata = Some [(''last_update_time'', PStr ''2025-07-03 15:16:53'')], batches = []\<rparr>"
  have ex: "map_of ?s ''ticketData'' = Some ?c" by (simp add: checkpoint_store_def)
  have md: "metadata_of ?s ''ticketData'' = [(''last_update_time'', PStr ''2025-07-03 15:16:53'')]"
    by (simp add: checkpoint_store_def metadata_of_def)
  have q: "list_exn quiet_env = None" "open_exn quiet_env = None" by (simp_all add: quiet_env_def)
  have none: "map_of ([] :: store) ''ticketData'' = None" by simp
  from get_or_create_keeps_existing [of ?s "''ticketData''" ?c quiet_env "[''some text'']" "''a.pdf''"]
       get_or_create_keeps_existing [of "[]" "''ticketData''" ?c quiet_env]
       ex md q none
  show ?thesis by simp
qed

section \<open>The checkpoint endpoints\<close>



subsection \<open>What \<open>strptime\<close> accepts\<close>


























subsection \<open>The update endpoint\<close>




text \<open>A checkpoint with two blanks, once stored, makes the next sync run fail where the
  cutoff is split into date and time.\<close>

lemma loose_checkpoint_breaks_sync:
  "fst (sync_tickets (env_with [one_ticket])
          (snd (update_last_update_time quiet_env fresh_store
                  [(''last_update_time'', PStr ''2025-07-03  15:16:53'')])))
     = \<lparr>success = False,
        message = ''Error during ticket sync: too many values to unpack (expected 2)'',
        tickets_processed = 0, latest_update_time = None\<rparr>"
  by code_simp




section \<open>A sync run\<close>

lemma stored_checkpoint_cong:
  "metadata_of s' ''ticketData'' = metadata_of s ''ticketData'' \<Longrightarrow> stored_checkpoint s' = stored_checkpoint s"
  by (simp add: stored_checkpoint_def)

lemma load_is_stored:
  "map_of s ''ticketData'' = Some c \<Longrightarrow> load_last_update_time c = stored_checkpoint s"
  by (simp add: load_last_update_time_def stored_checkpoint_def metadata_of_def)

lemma cutoff_is_current:
  "map_of s ''ticketData'' = Some c \<Longrightarrow> cutoff_of c = current_cutoff s"
  by (simp add: cutoff_of_def current_cutoff_def load_is_stored Let_def)

lemma stored_checkpoint_created:
  assumes "map_of s ''ticketData'' = None"
  shows "stored_checkpoint (s @ [(''ticketData'', \<lparr>metadata = Some ticket_collection_metadata, batches = []\<rparr>)])
           = stored_checkpoint s"
  using assms
  by (simp add: stored_checkpoint_def metadata_of_def map_of_snoc_new dict_get_def
      ticket_collection_metadata_def del: map_of_append)

lemma open_ticket_collection_result:
  assumes "open_ticket_collection e s = (r, s1)"
  shows "stored_checkpoint s1 = stored_checkpoint s
         \<and> (\<forall>c. r = Inr c \<longrightarrow> map_of s1 ''ticketData'' = Some c \<and> list_exn e = None \<and> open_exn e = None)
         \<and> (list_exn e = None \<and> open_exn e = None \<longrightarrow> (\<exists>c. r = Inr c))"
proof (cases "map_of s ''ticketData''")
  case None
  with assms show ?thesis
    using stored_checkpoint_created [OF None]
    by (auto simp: open_ticket_collection_missing map_of_snoc_new simp del: map_of_append
        split: option.splits)
next
  case (Some c)
  with assms show ?thesis
    by (auto simp: open_ticket_collection_existing split: option.splits)
qed

lemma store_ticket_data_result:
  assumes "store_ticket_data e s name docs metas = (r, s2)"
  shows "stored_checkpoint s2 = stored_checkpoint s
         \<and> (\<forall>x. r = Inl x \<longrightarrow> s2 = s)
         \<and> (r = Inr () \<longrightarrow> add_exn e = None)
         \<and> (\<forall>c. map_of s name = Some c \<longrightarrow> map_of s2 name \<noteq> None)"
  using assms
  by (auto simp: store_ticket_data_def collection_add_def stored_checkpoint_def
      metadata_of_update_collection map_of_update_collection split: option.splits)

lemma save_result:
  assumes "save_last_update_time e s name t = (r, s3)"
  shows "(\<forall>x. r = Inl x \<longrightarrow> s3 = s)
         \<and> (r = Inr () \<longrightarrow> modify_exn e = None)
         \<and> (r = Inr () \<and> name = ''ticketData'' \<and> map_of s name \<noteq> None \<longrightarrow> stored_checkpoint s3 = PStr t)"
  using assms
  by (auto simp: save_last_update_time_def collection_modify_def stored_checkpoint_def
      metadata_of_def map_of_update_collection dict_get_def split: option.splits)

text \<open>The three ways a run ends.\<close>

lemma sync_tickets_cases:
  assumes run: "sync_tickets e s = (out, s')"
  shows "(\<exists>x. out = sync_error x \<and> stored_checkpoint s' = stored_checkpoint s)
       \<or> (out = \<lparr>success = True, message = ''No new tickets to process'',
                 tickets_processed = 0, latest_update_time = None\<rparr>
           \<and> stored_checkpoint s' = stored_checkpoint s
           \<and> (\<exists>latest. fetch_tickets_from_servicenow e (current_cutoff s) = Inr ([], latest)))
       \<or> (\<exists>tickets l. fetch_tickets_from_servicenow e (current_cutoff s) = Inr (tickets, Some l)
             \<and> tickets \<noteq> [] \<and> add_exn e = None
             \<and> out = \<lparr>success = True, message = ''Tickets synced successfully'',
                      tickets_processed = length tickets,
                      latest_update_time = Some (map_of l ''sys_created_on'')\<rparr>
             \<and> (case map_of l ''sys_created_on'' of
                   None \<Rightarrow> stored_checkpoint s' = stored_checkpoint s
                 | Some lt \<Rightarrow> if lt = [] then stored_checkpoint s' = stored_checkpoint s
                              else modify_exn e = None \<and> stored_checkpoint s' = PStr lt))"
proof (cases "fetch_db_client e")
  case (Inl x)
  with run show ?thesis by (auto simp: sync_tickets_def)
next
  case conn: (Inr u)
  obtain r s1 where op: "open_ticket_collection e s = (r, s1)"
    by (cases "open_ticket_collection e s")
  note o = open_ticket_collection_result [OF op]
  show ?thesis
  proof (cases r)
    case (Inl x)
    with run conn op o show ?thesis by (auto simp: sync_tickets_def)
  next
    case (Inr coll)
    with o have c: "map_of s1 ''ticketData'' = Some coll" and cp1: "stored_checkpoint s1 = stored_checkpoint s"
      by simp_all
    have cut: "cutoff_of coll = current_cutoff s"
      using cutoff_is_current [OF c] cp1 by (simp add: current_cutoff_def)
    show ?thesis
    proof (cases "fetch_tickets_from_servicenow e (current_cutoff s)")
      case (Inl x)
      with run conn op Inr cut cp1 show ?thesis by (auto simp: sync_tickets_def)
    next
      case f: (Inr res)
      obtain tickets latest where res: "res = (tickets, latest)" by (cases res)
      show ?thesis
      proof (cases "tickets = []")
        case True
        with run conn op Inr cut cp1 f res show ?thesis by (auto simp: sync_tickets_def)
      next
        case ne: False
        obtain r2 s2 where st: "store_ticket_data e s1 ''ticketData'' (map ticket_document tickets)
                                  (map ticket_metadata tickets) = (r2, s2)"
          by (cases "store_ticket_data e s1 ''ticketData'' (map ticket_document tickets)
                                  (map ticket_metadata tickets)")
        note sr = store_ticket_data_result [OF st]
        from sr cp1 have cp2: "stored_checkpoint s2 = stored_checkpoint s" by simp
        from sr c have ex2: "map_of s2 ''ticketData'' \<noteq> None" by simp
        show ?thesis
        proof (cases r2)
          case (Inl x)
          with run conn op Inr cut f res ne st cp2 show ?thesis
            by (auto simp: sync_tickets_def prepare_ticket_batches_def)
        next
          case added: (Inr u2)
          with sr have addok: "add_exn e = None" by simp
          show ?thesis
          proof (cases latest)
            case None
            with run conn op Inr cut f res ne st added cp2 show ?thesis
              by (auto simp: sync_tickets_def prepare_ticket_batches_def)
          next
            case (Some l)
            show ?thesis
            proof (cases "map_of l ''sys_created_on''")
              case None
              with run conn op Inr cut f res ne st added cp2 Some addok show ?thesis
                by (auto simp: sync_tickets_def prepare_ticket_batches_def)
            next
              case lt: (Some lt)
              show ?thesis
              proof (cases "lt = []")
                case True
                with run conn op Inr cut f res ne st added cp2 Some addok lt show ?thesis
                  by (auto simp: sync_tickets_def prepare_ticket_batches_def)
              next
                case False
                obtain r3 s3 where sv: "save_last_update_time e s2 ''ticketData'' lt = (r3, s3)"
                  by (cases "save_last_update_time e s2 ''ticketData'' lt")
                note svr = save_result [OF sv]
                show ?thesis
                proof (cases r3)
                  case (Inl x)
                  with svr have "s3 = s2" by simp
                  with run conn op Inr cut f res ne st added cp2 Some lt False sv Inl show ?thesis
                    by (auto simp: sync_tickets_def prepare_ticket_batches_def)
                next
                  case saved: (Inr u3)
                  with svr ex2 have "modify_exn e = None" "stored_checkpoint s3 = PStr lt" by simp_all
                  with run conn op Inr cut f res ne st added Some lt False sv saved addok show ?thesis
                    by (auto simp: sync_tickets_def prepare_ticket_batches_def)
                qed
              qed
            qed
          qed
        qed
      qed
    qed
  qed
qed

section \<open>A response that is not 2xx\<close>

lemma fetch_not_200:
  assumes "split_char CHR '' '' a = [d, t]" "source e d t = Inr resp" "status_code resp \<noteq> 200"
  shows "fetch_tickets_from_servicenow e (PStr a) = Inr ([], None)"
  using assms by (simp add: fetch_tickets_from_servicenow_def)

lemma fetch_empty:
  assumes "split_char CHR '' '' a = [d, t]" "source e d t = Inr resp" "status_code resp = 200"
    "result resp = Inr []"
  shows "fetch_tickets_from_servicenow e (PStr a) = Inr ([], None)"
  using assms by (simp add: fetch_tickets_from_servicenow_def)

text \<open>A run whose fetch returns no records.\<close>

lemma sync_tickets_nothing_fetched:
  assumes "connect_exn e = None" "list_exn e = None" "open_exn e = None"
    and f: "fetch_tickets_from_servicenow e (current_cutoff s) = Inr ([], latest)"
  shows "fst (sync_tickets e s) = \<lparr>success = True, message = ''No new tickets to process'',
                 tickets_processed = 0, latest_update_time = None\<rparr>
         \<and> stored_checkpoint (snd (sync_tickets e s)) = stored_checkpoint s
         \<and> snd (sync_tickets e s) = snd (open_ticket_collection e s)"
proof -
  obtain r s1 where op: "open_ticket_collection e s = (r, s1)"
    by (cases "open_ticket_collection e s")
  note o = open_ticket_collection_result [OF op]
  from o assms obtain coll where r: "r = Inr coll" by blast
  with o have c: "map_of s1 ''ticketData'' = Some coll" and cp1: "stored_checkpoint s1 = stored_checkpoint s"
    by simp_all
  have cut: "cutoff_of coll = current_cutoff s"
    using cutoff_is_current [OF c] cp1 by (simp add: current_cutoff_def)
  show ?thesis
    using assms op r cut cp1 by (simp add: sync_tickets_def fetch_db_client_def)
qed

text \<open>
  Claim C5. When the record source answers the request with a status outside 200 to
  299, \<open>fetch_tickets_from_servicenow\<close> returns \<open>([], None)\<close>. A run whose store calls
  do not fail then reports success with no ticket processed, leaves the stored
  checkpoint as it was, and ends exactly as the run does when the source answers 200
  with no record.
\<close>

theorem non_2xx_is_no_new_records:
  assumes "current_cutoff s = PStr a" "split_char CHR '' '' a = [d, t]"
    and "source e d t = Inr resp"
    and "\<not> (200 \<le> status_code resp \<and> status_code resp < 300)"
  shows "fetch_tickets_from_servicenow e (PStr a) = Inr ([], None)
       \<and> (connect_exn e = None \<and> list_exn e = None \<and> open_exn e = None \<longrightarrow>
            fst (sync_tickets e s) = \<lparr>success = True, message = ''No new tickets to process'',
                 tickets_processed = 0, latest_update_time = None\<rparr>
            \<and> stored_checkpoint (snd (sync_tickets e s)) = stored_checkpoint s
            \<and> sync_tickets e s
                = sync_tickets (e\<lparr>source := \<lambda>date_part time_part.
                                     Inr \<lparr>status_code = 200, result = Inr []\<rparr>\<rparr>) s)"
proof -
  let ?e0 = "e\<lparr>source := \<lambda>date_part time_part. Inr \<lparr>status_code = 200, result = Inr []\<rparr>\<rparr>"
  from assms(4) have ne: "status_code resp \<noteq> 200" by auto
  have f: "fetch_tickets_from_servicenow e (PStr a) = Inr ([], None)"
    using assms(2,3) ne by (rule fetch_not_200)
  have f0: "fetch_tickets_from_servicenow ?e0 (PStr a) = Inr ([], None)"
    using assms(2) by (simp add: fetch_tickets_from_servicenow_def)
  have g0: "get_collection ?e0 s n = get_collection e s n" for n
    by (simp add: get_collection_def)
  have c0: "create_collection ?e0 s n md = create_collection e s n md" for n md
    by (simp add: create_collection_def)
  have l0: "list_collections ?e0 s = list_collections e s"
    by (simp add: list_collections_def)
  have op0: "open_ticket_collection ?e0 s = open_ticket_collection e s"
    by (simp only: open_ticket_collection_def g0 c0 l0)
  have "fst (sync_tickets e s) = \<lparr>success = True, message = ''No new tickets to process'',
                 tickets_processed = 0, latest_update_time = None\<rparr>
            \<and> stored_checkpoint (snd (sync_tickets e s)) = stored_checkpoint s
            \<and> sync_tickets e s = sync_tickets ?e0 s"
    if ok: "connect_exn e = None" "list_exn e = None" "open_exn e = None"
  proof -
    have a: "fst (sync_tickets e s) = \<lparr>success = True, message = ''No new tickets to process'',
                 tickets_processed = 0, latest_update_time = None\<rparr>
         \<and> stored_checkpoint (snd (sync_tickets e s)) = stored_checkpoint s
         \<and> snd (sync_tickets e s) = snd (open_ticket_collection e s)"
      using ok f assms(1) by (intro sync_tickets_nothing_fetched) simp_all
    have b: "fst (sync_tickets ?e0 s) = \<lparr>success = True, message = ''No new tickets to process'',
                 tickets_processed = 0, latest_update_time = None\<rparr>
         \<and> stored_checkpoint (snd (sync_tickets ?e0 s)) = stored_checkpoint s
         \<and> snd (sync_tickets ?e0 s) = snd (open_ticket_collection ?e0 s)"
      using ok f0 assms(1) by (intro sync_tickets_nothing_fetched) simp_all
    from a b op0 have eq: "sync_tickets e s = sync_tickets ?e0 s"
      by (simp add: prod_eq_iff)
    from a have a1: "fst (sync_tickets e s) = \<lparr>success = True, message = ''No new tickets to process'',
                 tickets_processed = 0, latest_update_time = None\<rparr>"
      and a2: "stored_checkpoint (snd (sync_tickets e s)) = stored_checkpoint s"
      by blast+
    from a1 a2 eq show ?thesis by blast
  qed
  with f show ?thesis by blast
qed

theorem non_2xx_is_no_new_records_witness:
  "current_cutoff (checkpoint_store ''2025-07-03 15:16:53'') = PStr ''2025-07-03 15:16:53''
   \<and> split_char CHR '' '' ''2025-07-03 15:16:53'' = [''2025-07-03'', ''15:16:53'']
   \<and> fetch_tickets_from_servicenow env_404 (PStr ''2025-07-03 15:16:53'') = Inr ([], None)
   \<and> fst (sync_tickets env_404 (checkpoint_store ''2025-07-03 15:16:53''))
        = \<lparr>success = True, message = ''No new tickets to process'',
           tickets_processed = 0, latest_update_time = None\<rparr>
   \<and> stored_checkpoint (snd (sync_tickets env_404 (checkpoint_store ''2025-07-03 15:16:53'')))
        = PStr ''2025-07-03 15:16:53''"
proof -
  let ?s = "checkpoint_store ''2025-07-03 15:16:53''"
  let ?resp = "\<lparr>status_code = 404, result = Inl (ValueError ''no JSON'')\<rparr>"
  have sc: "stored_checkpoint ?s = PStr ''2025-07-03 15:16:53''"
    by (simp add: stored_checkpoint_def metadata_of_def checkpoint_store_def dict_get_def)
  then have cut: "current_cutoff ?s = PStr ''2025-07-03 15:16:53''"
    by (simp add: current_cutoff_def)
  have sp: "split_char CHR '' '' ''2025-07-03 15:16:53'' = [''2025-07-03'', ''15:16:53'']"
    by simp
  have src: "source env_404 ''2025-07-03'' ''15:16:53'' = Inr ?resp"
    by (simp add: env_404_def)
  have st: "\<not> (200 \<le> status_code ?resp \<and> status_code ?resp < 300)" by simp
  have ok: "connect_exn env_404 = None" "list_exn env_404 = None" "open_exn env_404 = None"
    by (simp_all add: env_404_def quiet_env_def)
  note th = non_2xx_is_no_new_records [OF cut sp src st]
  from th have f: "fetch_tickets_from_servicenow env_404 (PStr ''2025-07-03 15:16:53'') = Inr ([], None)"
    by (rule conjunct1)
  from th ok have g: "fst (sync_tickets env_404 ?s)
        = \<lparr>success = True, message = ''No new tickets to process'',
           tickets_processed = 0, latest_update_time = None\<rparr>
      \<and> stored_checkpoint (snd (sync_tickets env_404 ?s)) = stored_checkpoint ?s"
    by blast
  from f g sc cut sp show ?thesis by simp
qed

section \<open>When the checkpoint advances\<close>

lemma success_sync_error: "\<not> success (sync_error x)"
  by (simp add: sync_error_def)

lemma message_sync_error: "message (sync_error x) = ''Error during ticket sync: '' @ str_exn x"
  by (simp add: sync_error_def)

lemma open_ticket_collection_opened:
  assumes "list_exn e = None" "open_exn e = None"
  shows "\<exists>coll s1. open_ticket_collection e s = (Inr coll, s1)
           \<and> map_of s1 ''ticketData'' = Some coll
           \<and> cutoff_of coll = current_cutoff s
           \<and> stored_checkpoint s1 = stored_checkpoint s"
proof -
  obtain r s1 where op: "open_ticket_collection e s = (r, s1)"
    by (cases "open_ticket_collection e s")
  note o = open_ticket_collection_result [OF op]
  from o assms obtain coll where r: "r = Inr coll" by blast
  with o have c: "map_of s1 ''ticketData'' = Some coll"
    and cp1: "stored_checkpoint s1 = stored_checkpoint s"
    by simp_all
  have "cutoff_of coll = current_cutoff s"
    using cutoff_is_current [OF c] cp1 by (simp add: current_cutoff_def)
  with op r c cp1 show ?thesis by simp
qed

lemma open_ticket_collection_raises:
  "list_exn e = Some x \<Longrightarrow> open_ticket_collection e s = (Inl x, s)"
  "list_exn e = None \<Longrightarrow> open_exn e = Some x \<Longrightarrow> open_ticket_collection e s = (Inl x, s)"
  by (cases "map_of s ''ticketData''";
      simp add: open_ticket_collection_existing open_ticket_collection_missing)+

text \<open>The run after the collection is open, step by step.\<close>

lemma sync_tickets_steps:
  assumes ok: "connect_exn e = None" "list_exn e = None" "open_exn e = None"
  shows "(\<forall>x. fetch_tickets_from_servicenow e (current_cutoff s) = Inl x \<longrightarrow>
            fst (sync_tickets e s) = sync_error x
            \<and> stored_checkpoint (snd (sync_tickets e s)) = stored_checkpoint s)
       \<and> (\<forall>ticks latest.
            fetch_tickets_from_servicenow e (current_cutoff s) = Inr (ticks, latest) \<and> ticks \<noteq> [] \<longrightarrow>
              (\<forall>x. add_exn e = Some x \<longrightarrow>
                 fst (sync_tickets e s) = sync_error x
                 \<and> stored_checkpoint (snd (sync_tickets e s)) = stored_checkpoint s)
              \<and> (add_exn e = None \<longrightarrow>
                   (\<forall>l lt. latest = Some l \<and> map_of l ''sys_created_on'' = Some lt \<and> lt \<noteq> [] \<longrightarrow>
                      (\<forall>x. modify_exn e = Some x \<longrightarrow>
                         fst (sync_tickets e s) = sync_error x
                         \<and> stored_checkpoint (snd (sync_tickets e s)) = stored_checkpoint s)
                      \<and> (modify_exn e = None \<longrightarrow>
                           fst (sync_tickets e s)
                             = \<lparr>success = True, message = ''Tickets synced successfully'',
                                tickets_processed = length ticks,
                                latest_update_time = Some (Some lt)\<rparr>
                           \<and> stored_checkpoint (snd (sync_tickets e s)) = PStr lt))))"
proof -
  from open_ticket_collection_opened [OF ok(2,3)] obtain coll s1
    where op: "open_ticket_collection e s = (Inr coll, s1)"
      and c: "map_of s1 ''ticketData'' = Some coll"
      and cut: "cutoff_of coll = current_cutoff s"
      and cp1: "stored_checkpoint s1 = stored_checkpoint s"
    by blast
  have conn: "fetch_db_client e = Inr ()" using ok(1) by (simp add: fetch_db_client_def)
  have a: "fst (sync_tickets e s) = sync_error x
            \<and> stored_checkpoint (snd (sync_tickets e s)) = stored_checkpoint s"
    if "fetch_tickets_from_servicenow e (current_cutoff s) = Inl x" for x
    using that conn op cut cp1 by (simp add: sync_tickets_def)
  have b: "(\<forall>x. add_exn e = Some x \<longrightarrow>
                 fst (sync_tickets e s) = sync_error x
                 \<and> stored_checkpoint (snd (sync_tickets e s)) = stored_checkpoint s)
              \<and> (add_exn e = None \<longrightarrow>
                   (\<forall>l lt. latest = Some l \<and> map_of l ''sys_created_on'' = Some lt \<and> lt \<noteq> [] \<longrightarrow>
                      (\<forall>x. modify_exn e = Some x \<longrightarrow>
                         fst (sync_tickets e s) = sync_error x
                         \<and> stored_checkpoint (snd (sync_tickets e s)) = stored_checkpoint s)
                      \<and> (modify_exn e = None \<longrightarrow>
                           fst (sync_tickets e s)
                             = \<lparr>success = True, message = ''Tickets synced successfully'',
                                tickets_processed = length ticks,
                                latest_update_time = Some (Some lt)\<rparr>
                           \<and> stored_checkpoint (snd (sync_tickets e s)) = PStr lt)))"
    if f: "fetch_tickets_from_servicenow e (current_cutoff s) = Inr (ticks, latest)"
      and ne: "ticks \<noteq> []" for ticks latest
  proof -
    let ?docs = "map ticket_document ticks" and ?metas = "map ticket_metadata ticks"
    have add_fail: "fst (sync_tickets e s) = sync_error x
                 \<and> stored_checkpoint (snd (sync_tickets e s)) = stored_checkpoint s"
      if "add_exn e = Some x" for x
    proof -
      from that have "store_ticket_data e s1 ''ticketData'' ?docs ?metas = (Inl x, s1)"
        by (simp add: store_ticket_data_def collection_add_def)
      with conn op cut f ne cp1 show ?thesis
        by (simp add: sync_tickets_def prepare_ticket_batches_def)
    qed
    have add_ok: "(\<forall>x. modify_exn e = Some x \<longrightarrow>
                         fst (sync_tickets e s) = sync_error x
                         \<and> stored_checkpoint (snd (sync_tickets e s)) = stored_checkpoint s)
                      \<and> (modify_exn e = None \<longrightarrow>
                           fst (sync_tickets e s)
                             = \<lparr>success = True, message = ''Tickets synced successfully'',
                                tickets_processed = length ticks,
                                latest_update_time = Some (Some lt)\<rparr>
                           \<and> stored_checkpoint (snd (sync_tickets e s)) = PStr lt)"
      if noadd: "add_exn e = None" and l: "latest = Some l" "map_of l ''sys_created_on'' = Some lt"
        "lt \<noteq> []" for l lt
    proof -
      obtain r2 s2 where st: "store_ticket_data e s1 ''ticketData'' ?docs ?metas = (r2, s2)"
        by (cases "store_ticket_data e s1 ''ticketData'' ?docs ?metas")
      from noadd st have r2: "r2 = Inr ()"
        by (simp add: store_ticket_data_def collection_add_def)
      note sr = store_ticket_data_result [OF st]
      from sr cp1 have cp2: "stored_checkpoint s2 = stored_checkpoint s" by simp
      from sr c have ex2: "map_of s2 ''ticketData'' \<noteq> None" by simp
      obtain r3 s3 where sv: "save_last_update_time e s2 ''ticketData'' lt = (r3, s3)"
        by (cases "save_last_update_time e s2 ''ticketData'' lt")
      note svr = save_result [OF sv]
      have run: "sync_tickets e s =
                   (case r3 of
                      Inl x \<Rightarrow> (sync_error x, s3)
                    | Inr _ \<Rightarrow> (\<lparr>success = True, message = ''Tickets synced successfully'',
                                tickets_processed = length ticks,
                                latest_update_time = Some (Some lt)\<rparr>, s3))"
        using conn op cut f ne st r2 l sv
        by (simp add: sync_tickets_def prepare_ticket_batches_def split: sum.splits)
      have m_fail: "fst (sync_tickets e s) = sync_error x
                         \<and> stored_checkpoint (snd (sync_tickets e s)) = stored_checkpoint s"
        if "modify_exn e = Some x" for x
      proof -
        from that sv have "r3 = Inl x" "s3 = s2"
          by (simp_all add: save_last_update_time_def collection_modify_def)
        with run cp2 show ?thesis by simp
      qed
      have m_ok: "fst (sync_tickets e s)
                             = \<lparr>success = True, message = ''Tickets synced successfully'',
                                tickets_processed = length ticks,
                                latest_update_time = Some (Some lt)\<rparr>
                           \<and> stored_checkpoint (snd (sync_tickets e s)) = PStr lt"
        if "modify_exn e = None"
      proof -
        from that sv have r3: "r3 = Inr ()"
          by (simp add: save_last_update_time_def collection_modify_def)
        with svr ex2 have "stored_checkpoint s3 = PStr lt" by simp
        with run r3 show ?thesis by simp
      qed
      from m_fail m_ok show ?thesis by blast
    qed
    from add_fail add_ok show ?thesis by blast
  qed
  from a b show ?thesis by blast
qed

text \<open>
  Claim C2. A run that does not succeed reports \<open>success = False\<close> with the message of
  the exception after \<open>Error during ticket sync:\<close>, and leaves the stored checkpoint
  as it was. The stored checkpoint changes only in a run that succeeds, whose
  \<open>collection.add\<close> and \<open>collection.modify\<close> returned, that processed at least one
  ticket and whose latest record has a non-empty creation timestamp, which is the new
  checkpoint. A run succeeds only if its connect, list, open and fetch steps did not
  raise, and processes tickets only if \<open>add\<close> did not raise; when \<open>add\<close> or
  \<open>modify\<close> raises, the checkpoint stays.

  Step by step: when the connection, the listing or the opening of the collection
  raises \<open>x\<close>, the outcome is \<open>success = False\<close> with the message
  \<open>Error during ticket sync:\<close> followed by \<open>str(x)\<close>, no ticket processed, and the
  store is untouched. When these return and the fetch raises \<open>x\<close>, or the fetch
  returns tickets and \<open>collection.add\<close> raises \<open>x\<close>, or \<open>add\<close> returns and
  \<open>collection.modify\<close> raises \<open>x\<close> on the non-empty timestamp of the latest record,
  the outcome is that same failure for this \<open>x\<close> and the stored checkpoint is the one
  before the run. When none of the steps raises, the outcome is the success record with
  the number of tickets and the timestamp of the latest record, which is then the
  stored checkpoint.
\<close>

theorem checkpoint_advance_guarded:
  assumes "sync_tickets e s = (out, s')"
  shows "(\<not> success out \<longrightarrow>
            (\<exists>x. out = sync_error x \<and> message out = ''Error during ticket sync: '' @ str_exn x)
            \<and> stored_checkpoint s' = stored_checkpoint s)
       \<and> (stored_checkpoint s' \<noteq> stored_checkpoint s \<longrightarrow>
            success out \<and> add_exn e = None \<and> modify_exn e = None
            \<and> 0 < tickets_processed out
            \<and> (\<exists>lt. lt \<noteq> [] \<and> latest_update_time out = Some (Some lt)
                    \<and> stored_checkpoint s' = PStr lt))
       \<and> (success out \<longrightarrow>
            connect_exn e = None \<and> list_exn e = None \<and> open_exn e = None
            \<and> (\<exists>r. fetch_tickets_from_servicenow e (current_cutoff s) = Inr r)
            \<and> (0 < tickets_processed out \<longrightarrow> add_exn e = None))
       \<and> (add_exn e \<noteq> None \<or> modify_exn e \<noteq> None \<longrightarrow>
             stored_checkpoint s' = stored_checkpoint s)
       \<and> (\<forall>x. connect_exn e = Some x
                \<or> connect_exn e = None \<and> list_exn e = Some x
                \<or> connect_exn e = None \<and> list_exn e = None \<and> open_exn e = Some x \<longrightarrow>
              out = \<lparr>success = False, message = ''Error during ticket sync: '' @ str_exn x,
                     tickets_processed = 0, latest_update_time = None\<rparr>
              \<and> s' = s)
       \<and> (connect_exn e = None \<and> list_exn e = None \<and> open_exn e = None \<longrightarrow>
            (\<forall>x. fetch_tickets_from_servicenow e (current_cutoff s) = Inl x \<longrightarrow>
               out = \<lparr>success = False, message = ''Error during ticket sync: '' @ str_exn x,
                      tickets_processed = 0, latest_update_time = None\<rparr>
               \<and> stored_checkpoint s' = stored_checkpoint s)
            \<and> (\<forall>ticks latest.
                 fetch_tickets_from_servicenow e (current_cutoff s) = Inr (ticks, latest)
                 \<and> ticks \<noteq> [] \<longrightarrow>
                   (\<forall>x. add_exn e = Some x \<longrightarrow>
                      out = \<lparr>success = False, message = ''Error during ticket sync: '' @ str_exn x,
                             tickets_processed = 0, latest_update_time = None\<rparr>
                      \<and> stored_checkpoint s' = stored_checkpoint s)
                   \<and> (add_exn e = None \<longrightarrow>
                        (\<forall>l lt. latest = Some l \<and> map_of l ''sys_created_on'' = Some lt
                                \<and> lt \<noteq> [] \<longrightarrow>
                           (\<forall>x. modify_exn e = Some x \<longrightarrow>
                              out = \<lparr>success = False,
                                     message = ''Error during ticket sync: '' @ str_exn x,
                                     tickets_processed = 0, latest_update_time = None\<rparr>
                              \<and> stored_checkpoint s' = stored_checkpoint s)
                           \<and> (modify_exn e = None \<longrightarrow>
                                out = \<lparr>success = True, message = ''Tickets synced successfully'',
                                       tickets_processed = length ticks,
                                       latest_update_time = Some (Some lt)\<rparr>
                                \<and> stored_checkpoint s' = PStr lt)))))"
proof -
  let ?P1 = "\<not> success out \<longrightarrow>
            (\<exists>x. out = sync_error x \<and> message out = ''Error during ticket sync: '' @ str_exn x)
            \<and> stored_checkpoint s' = stored_checkpoint s"
  let ?P2 = "stored_checkpoint s' \<noteq> stored_checkpoint s \<longrightarrow>
            success out \<and> add_exn e = None \<and> modify_exn e = None
            \<and> 0 < tickets_processed out
            \<and> (\<exists>lt. lt \<noteq> [] \<and> latest_update_time out = Some (Some lt)
                    \<and> stored_checkpoint s' = PStr lt)"
  let ?P3 = "success out \<longrightarrow>
            (\<exists>r. fetch_tickets_from_servicenow e (current_cutoff s) = Inr r)
            \<and> (0 < tickets_processed out \<longrightarrow> add_exn e = None)"
  let ?P4 = "add_exn e \<noteq> None \<or> modify_exn e \<noteq> None \<longrightarrow>
             stored_checkpoint s' = stored_checkpoint s"
  from assms have fs: "fst (sync_tickets e s) = out" "snd (sync_tickets e s) = s'" by simp_all
  note c = sync_tickets_cases [OF assms]
  have p1234: "?P1 \<and> ?P2 \<and> ?P3 \<and> ?P4"
    using c
  proof (elim disjE exE conjE)
    fix x assume "out = sync_error x" "stored_checkpoint s' = stored_checkpoint s"
    then show ?thesis by (auto simp: message_sync_error success_sync_error)
  next
    fix latest
    assume "out = \<lparr>success = True, message = ''No new tickets to process'',
                 tickets_processed = 0, latest_update_time = None\<rparr>"
           "stored_checkpoint s' = stored_checkpoint s"
           "fetch_tickets_from_servicenow e (current_cutoff s) = Inr ([], latest)"
    then show ?thesis by simp
  next
    fix tickets l
    assume synced: "tickets \<noteq> []" "add_exn e = None"
         "out = \<lparr>success = True, message = ''Tickets synced successfully'',
                      tickets_processed = length tickets,
                      latest_update_time = Some (map_of l ''sys_created_on'')\<rparr>"
         "(case map_of l ''sys_created_on'' of
                   None \<Rightarrow> stored_checkpoint s' = stored_checkpoint s
                 | Some lt \<Rightarrow> if lt = [] then stored_checkpoint s' = stored_checkpoint s
                              else modify_exn e = None \<and> stored_checkpoint s' = PStr lt)"
         "fetch_tickets_from_servicenow e (current_cutoff s) = Inr (tickets, Some l)"
    show ?thesis
    proof (cases "map_of l ''sys_created_on''")
      case None
      with synced show ?thesis by simp
    next
      case (Some lt)
      with synced show ?thesis by (cases "lt = []") simp_all
    qed
  qed
  have early: "out = \<lparr>success = False, message = ''Error during ticket sync: '' @ str_exn x,
                     tickets_processed = 0, latest_update_time = None\<rparr>
              \<and> s' = s"
    if "connect_exn e = Some x
          \<or> connect_exn e = None \<and> list_exn e = Some x
          \<or> connect_exn e = None \<and> list_exn e = None \<and> open_exn e = Some x" for x
    using that
  proof (elim disjE conjE)
    assume "connect_exn e = Some x"
    with assms show ?thesis by (simp add: sync_tickets_def fetch_db_client_def sync_error_def)
  next
    assume "connect_exn e = None" "list_exn e = Some x"
    with assms open_ticket_collection_raises(1) [of e x s] show ?thesis
      by (simp add: sync_tickets_def fetch_db_client_def sync_error_def)
  next
    assume "connect_exn e = None" "list_exn e = None" "open_exn e = Some x"
    with assms open_ticket_collection_raises(2) [of e x s] show ?thesis
      by (simp add: sync_tickets_def fetch_db_client_def sync_error_def)
  qed
  have p5: "\<not> success out"
    if "connect_exn e \<noteq> None \<or> list_exn e \<noteq> None \<or> open_exn e \<noteq> None"
  proof -
    from that obtain x where "connect_exn e = Some x
          \<or> connect_exn e = None \<and> list_exn e = Some x
          \<or> connect_exn e = None \<and> list_exn e = None \<and> open_exn e = Some x"
      by (cases "connect_exn e"; cases "list_exn e"; cases "open_exn e") auto
    from early [OF this] show ?thesis by simp
  qed
  have steps: "(\<forall>x. fetch_tickets_from_servicenow e (current_cutoff s) = Inl x \<longrightarrow>
               out = \<lparr>success = False, message = ''Error during ticket sync: '' @ str_exn x,
                      tickets_processed = 0, latest_update_time = None\<rparr>
               \<and> stored_checkpoint s' = stored_checkpoint s)
            \<and> (\<forall>ticks latest.
                 fetch_tickets_from_servicenow e (current_cutoff s) = Inr (ticks, latest)
                 \<and> ticks \<noteq> [] \<longrightarrow>
                   (\<forall>x. add_exn e = Some x \<longrightarrow>
                      out = \<lparr>success = False, message = ''Error during ticket sync: '' @ str_exn x,
                             tickets_processed = 0, latest_update_time = None\<rparr>
                      \<and> stored_checkpoint s' = stored_checkpoint s)
                   \<and> (add_exn e = None \<longrightarrow>
                        (\<forall>l lt. latest = Some l \<and> map_of l ''sys_created_on'' = Some lt
                                \<and> lt \<noteq> [] \<longrightarrow>
                           (\<forall>x. modify_exn e = Some x \<longrightarrow>
                              out = \<lparr>success = False,
                                     message = ''Error during ticket sync: '' @ str_exn x,
                                     tickets_processed = 0, latest_update_time = None\<rparr>
                              \<and> stored_checkpoint s' = stored_checkpoint s)
                           \<and> (modify_exn e = None \<longrightarrow>
                                out = \<lparr>success = True, message = ''Tickets synced successfully'',
                                       tickets_processed = length ticks,
                                       latest_update_time = Some (Some lt)\<rparr>
                                \<and> stored_checkpoint s' = PStr lt))))"
    if ok: "connect_exn e = None \<and> list_exn e = None \<and> open_exn e = None"
  proof -
    from ok have o: "connect_exn e = None" "list_exn e = None" "open_exn e = None" by simp_all
    from sync_tickets_steps [OF o, of s] show ?thesis
      unfolding fs sync_error_def .
  qed
  from p1234 p5 early steps show ?thesis by blast
qed

theorem checkpoint_advance_guarded_witness:
  "stored_checkpoint (snd (sync_tickets (env_with [one_ticket]) fresh_store))
     \<noteq> stored_checkpoint fresh_store
   \<and> success (fst (sync_tickets (env_with [one_ticket]) fresh_store))
   \<and> add_exn (env_with [one_ticket]) = None
   \<and> stored_checkpoint (snd (sync_tickets (env_with [one_ticket]) fresh_store))
       = PStr ''2025-07-04 09:30:00''
   \<and> \<not> success (fst (sync_tickets (env_add_fails [one_ticket]) fresh_store))
   \<and> message (fst (sync_tickets (env_add_fails [one_ticket]) fresh_store))
       = ''Error during ticket sync: store down''
   \<and> stored_checkpoint (snd (sync_tickets (env_add_fails [one_ticket]) fresh_store))
       = stored_checkpoint fresh_store"
proof -
  let ?ok = "sync_tickets (env_with [one_ticket]) fresh_store"
  let ?ko = "sync_tickets (env_add_fails [one_ticket]) fresh_store"
  have before: "stored_checkpoint fresh_store = PNone" by code_simp
  have after: "stored_checkpoint (snd ?ok) = PStr ''2025-07-04 09:30:00''" by code_simp
  have failed: "\<not> success (fst ?ko)" by code_simp
  have msg: "message (fst ?ko) = ''Error during ticket sync: store down''" by code_simp
  have r1: "?ok = (fst ?ok, snd ?ok)" by simp
  have r2: "?ko = (fst ?ko, snd ?ko)" by simp
  have ne: "stored_checkpoint (snd ?ok) \<noteq> stored_checkpoint fresh_store"
    using before after by simp
  from checkpoint_advance_guarded [OF r1] ne
  have a: "success (fst ?ok) \<and> add_exn (env_with [one_ticket]) = None" by blast
  from checkpoint_advance_guarded [OF r2] failed
  have b: "stored_checkpoint (snd ?ko) = stored_checkpoint fresh_store" by blast
  from a b ne after failed msg show ?thesis by simp
qed

section \<open>The checkpoint over a sequence of runs\<close>

lemma strptime_Nil: "strptime [] = None"
  by code_simp

lemma later_trans: "later a b \<Longrightarrow> later b c \<Longrightarrow> later a c"
  by (auto simp: later_def split: pyval.splits option.splits)

lemma not_earlier_refl: "not_earlier a a"
  by (simp add: not_earlier_def)

lemma not_earlier_trans: "not_earlier a b \<Longrightarrow> not_earlier b c \<Longrightarrow> not_earlier a c"
  by (auto simp: not_earlier_def dest: later_trans)

lemma later_nonempty: "later a (PStr c) \<Longrightarrow> c \<noteq> []"
  by (auto simp: later_def strptime_Nil split: pyval.splits option.splits)

lemma fetch_some_tickets:
  assumes "fetch_tickets_from_servicenow e cutoff = Inr (tickets, latest)" "tickets \<noteq> []"
  shows "\<exists>a d t resp raw. cutoff = PStr a \<and> split_char CHR '' '' a = [d, t]
           \<and> source e d t = Inr resp \<and> status_code resp = 200 \<and> result resp = Inr raw
           \<and> raw \<noteq> [] \<and> latest = latest_of raw \<and> map_tickets e raw = Inr tickets"
proof (cases cutoff)
  case (PStr a)
  show ?thesis
  proof (cases "split_char CHR '' '' a")
    case Nil
    with assms PStr show ?thesis by (simp add: fetch_tickets_from_servicenow_def)
  next
    case (Cons d rest)
    show ?thesis
    proof (cases rest)
      case Nil
      with assms PStr Cons show ?thesis by (simp add: fetch_tickets_from_servicenow_def)
    next
      case c2: (Cons t rest2)
      show ?thesis
      proof (cases rest2)
        case (Cons u v)
        with assms PStr \<open>split_char CHR '' '' a = d # rest\<close> c2 show ?thesis
          by (simp add: fetch_tickets_from_servicenow_def)
      next
        case Nil
        with \<open>split_char CHR '' '' a = d # rest\<close> c2 have sp: "split_char CHR '' '' a = [d, t]" by simp
        show ?thesis
        proof (cases "source e d t")
          case (Inl x)
          with assms PStr sp show ?thesis by (simp add: fetch_tickets_from_servicenow_def)
        next
          case (Inr resp)
          show ?thesis
          proof (cases "status_code resp = 200")
            case False
            with assms PStr sp Inr show ?thesis by (simp add: fetch_tickets_from_servicenow_def)
          next
            case True
            show ?thesis
            proof (cases "result resp")
              case (Inl x)
              with assms PStr sp Inr True show ?thesis
                by (simp add: fetch_tickets_from_servicenow_def)
            next
              case raw: (Inr raw)
              show ?thesis
              proof (cases "raw = []")
                case True
                with assms PStr sp Inr \<open>status_code resp = 200\<close> raw show ?thesis
                  by (simp add: fetch_tickets_from_servicenow_def)
              next
                case False
                with assms PStr sp Inr True raw show ?thesis
                  by (auto simp: fetch_tickets_from_servicenow_def Let_def split: sum.splits)
              qed
            qed
          qed
        qed
      qed
    qed
  qed
qed (use assms in \<open>simp_all add: fetch_tickets_from_servicenow_def\<close>)

lemma sync_tickets_fresh_step:
  assumes run: "sync_tickets e s = (out, s')"
    and fresh: "source_is_fresh e (current_cutoff s)"
  shows "(current_cutoff s' = current_cutoff s \<and> stored_checkpoint s' = stored_checkpoint s
            \<or> later (current_cutoff s) (stored_checkpoint s') \<and> current_cutoff s' = stored_checkpoint s')
         \<and> (success out \<and> 0 < tickets_processed out \<longrightarrow>
               later (current_cutoff s) (stored_checkpoint s') \<and> current_cutoff s' = stored_checkpoint s')"
  using sync_tickets_cases [OF run]
proof (elim disjE exE conjE)
  fix x assume "out = sync_error x" "stored_checkpoint s' = stored_checkpoint s"
  then show ?thesis by (simp add: current_cutoff_def sync_error_def)
next
  fix latest
  assume "out = \<lparr>success = True, message = ''No new tickets to process'',
                 tickets_processed = 0, latest_update_time = None\<rparr>"
         "stored_checkpoint s' = stored_checkpoint s"
  then show ?thesis by (simp add: current_cutoff_def)
next
  fix tickets l
  assume f: "fetch_tickets_from_servicenow e (current_cutoff s) = Inr (tickets, Some l)"
    and ne: "tickets \<noteq> []"
    and cp: "(case map_of l ''sys_created_on'' of
                   None \<Rightarrow> stored_checkpoint s' = stored_checkpoint s
                 | Some lt \<Rightarrow> if lt = [] then stored_checkpoint s' = stored_checkpoint s
                              else modify_exn e = None \<and> stored_checkpoint s' = PStr lt)"
  from fetch_some_tickets [OF f ne] obtain a d t resp raw
    where cutoff: "current_cutoff s = PStr a" and sp: "split_char CHR '' '' a = [d, t]"
      and src: "source e d t = Inr resp" and res: "result resp = Inr raw"
      and raw: "raw \<noteq> []" and lat: "Some l = latest_of raw"
    by blast
  from latest_of_Some [OF raw] lat have "l \<in> set raw" by auto
  moreover from fresh cutoff sp src res have "list_all (created_after a) raw"
    by (simp add: source_is_fresh_def)
  ultimately have "created_after a l" by (simp add: list_all_iff)
  then obtain c where c: "map_of l ''sys_created_on'' = Some c" and lt: "later (PStr a) (PStr c)"
    by (auto simp: created_after_def split: option.splits)
  from later_nonempty [OF lt] have "c \<noteq> []" .
  with cp c have st: "stored_checkpoint s' = PStr c" by simp
  with \<open>c \<noteq> []\<close> have "current_cutoff s' = stored_checkpoint s'"
    by (simp add: current_cutoff_def)
  with st lt cutoff show ?thesis by simp
qed

lemma sync_runs_not_earlier:
  "fresh_sources es s \<Longrightarrow> not_earlier (current_cutoff s) (current_cutoff (sync_runs es s))"
proof (induction es arbitrary: s)
  case Nil
  show ?case by (simp add: not_earlier_refl)
next
  case (Cons e es)
  let ?s1 = "snd (sync_tickets e s)"
  from Cons.prems have fr: "source_is_fresh e (current_cutoff s)" and rest: "fresh_sources es ?s1"
    by simp_all
  have "sync_tickets e s = (fst (sync_tickets e s), ?s1)" by simp
  from sync_tickets_fresh_step [OF this fr]
  have "not_earlier (current_cutoff s) (current_cutoff ?s1)"
    by (auto simp: not_earlier_def)
  moreover from Cons.IH [OF rest]
  have "not_earlier (current_cutoff ?s1) (current_cutoff (sync_runs es ?s1))" .
  ultimately show ?case by (auto intro: not_earlier_trans)
qed

text \<open>
  Claim C1, as the code has it. Under the hypothesis that, in every run, the records
  the source returns were all created strictly after the cutoff of that run (the
  stored checkpoint, or \<open>2000-01-01 00:00:00\<close> when there is none): over any sequence
  of sync runs on the store the cutoff, read as a timestamp, never decreases; and a
  run that changes the stored checkpoint, as every successful run that processed a
  ticket does, saves a checkpoint that is strictly later than the cutoff it replaces.
\<close>

theorem checkpoint_monotone_fresh_source:
  assumes "fresh_sources es s"
  shows "not_earlier (current_cutoff s) (current_cutoff (sync_runs es s))
       \<and> (\<forall>e. source_is_fresh e (current_cutoff s) \<longrightarrow>
            (stored_checkpoint (snd (sync_tickets e s)) \<noteq> stored_checkpoint s \<longrightarrow>
               later (current_cutoff s) (stored_checkpoint (snd (sync_tickets e s))))
            \<and> (success (fst (sync_tickets e s)) \<and> 0 < tickets_processed (fst (sync_tickets e s)) \<longrightarrow>
               later (current_cutoff s) (stored_checkpoint (snd (sync_tickets e s)))))"
proof -
  have step: "(stored_checkpoint (snd (sync_tickets e s)) \<noteq> stored_checkpoint s \<longrightarrow>
               later (current_cutoff s) (stored_checkpoint (snd (sync_tickets e s))))
            \<and> (success (fst (sync_tickets e s)) \<and> 0 < tickets_processed (fst (sync_tickets e s)) \<longrightarrow>
               later (current_cutoff s) (stored_checkpoint (snd (sync_tickets e s))))"
    if fr: "source_is_fresh e (current_cutoff s)" for e
  proof -
    have "sync_tickets e s = (fst (sync_tickets e s), snd (sync_tickets e s))" by simp
    from sync_tickets_fresh_step [OF this fr] show ?thesis by blast
  qed
  from sync_runs_not_earlier [OF assms] step show ?thesis by blast
qed

theorem checkpoint_monotone_fresh_source_witness:
  "fresh_sources [env_with [one_ticket], quiet_env] (checkpoint_store ''2025-07-03 15:16:53'')
   \<and> current_cutoff (checkpoint_store ''2025-07-03 15:16:53'') = PStr ''2025-07-03 15:16:53''
   \<and> current_cutoff (sync_runs [env_with [one_ticket], quiet_env]
                       (checkpoint_store ''2025-07-03 15:16:53'')) = PStr ''2025-07-04 09:30:00''
   \<and> not_earlier (PStr ''2025-07-03 15:16:53'') (PStr ''2025-07-04 09:30:00'')"
proof -
  let ?s = "checkpoint_store ''2025-07-03 15:16:53''"
  let ?es = "[env_with [one_ticket], quiet_env]"
  have fr: "fresh_sources ?es ?s" by code_simp
  have c0: "current_cutoff ?s = PStr ''2025-07-03 15:16:53''" by code_simp
  have c1: "current_cutoff (sync_runs ?es ?s) = PStr ''2025-07-04 09:30:00''" by code_simp
  from checkpoint_monotone_fresh_source [OF fr] c0 c1 fr show ?thesis by simp
qed

text \<open>
  Without the hypothesis the claim fails: the code saves the creation timestamp of the
  latest record and does not compare it with the stored checkpoint. A source that
  returns a record created before the checkpoint makes a successful run move the
  checkpoint back.
\<close>

theorem checkpoint_can_regress:
  "success (fst (sync_tickets (env_with [stale_ticket]) (checkpoint_store ''2025-07-03 15:16:53'')))
   \<and> stored_checkpoint (checkpoint_store ''2025-07-03 15:16:53'') = PStr ''2025-07-03 15:16:53''
   \<and> stored_checkpoint (snd (sync_tickets (env_with [stale_ticket])
                                 (checkpoint_store ''2025-07-03 15:16:53'')))
        = PStr ''2024-01-01 08:00:00''
   \<and> later (PStr ''2024-01-01 08:00:00'') (PStr ''2025-07-03 15:16:53'')"
  by code_simp

section \<open>Mapping the records of a response\<close>

lemma timestamp_result:
  "timestamp e dt = Inr v \<Longrightarrow> v = PTime dt"
  by (auto simp: timestamp_def split: if_splits option.splits)

lemma map_ticket_fields:
  assumes "map_ticket e t = Inr m"
  shows "ticket_number m = map_of t ''number'' \<and> title m = map_of t ''short_description''
         \<and> query m = map_of t ''description'' \<and> answer m = map_of t ''close_notes''
         \<and> (\<exists>c dt. map_of t ''sys_created_on'' = Some c \<and> strptime c = Some dt
                \<and> created m = PTime dt)"
  using assms
  by (auto simp: map_ticket_def to_iso8601_def dest: timestamp_result
      split: option.splits sum.splits)

lemma map_tickets_one_for_one:
  assumes "map_tickets e ts = Inr ms"
  shows "length ms = length ts
         \<and> (\<forall>i < length ts. map_ticket e (ts ! i) = Inr (ms ! i))"
  using assms
proof (induction ts arbitrary: ms)
  case Nil
  then show ?case by simp
next
  case (Cons t ts)
  from Cons.prems obtain m ms' where m: "map_ticket e t = Inr m" and ms': "map_tickets e ts = Inr ms'"
    and ms: "ms = m # ms'"
    by (auto split: sum.splits)
  from Cons.IH [OF ms'] have ih: "length ms' = length ts"
    "\<And>i. i < length ts \<Longrightarrow> map_ticket e (ts ! i) = Inr (ms' ! i)" by simp_all
  show ?case
  proof (intro conjI allI impI)
    show "length ms = length (t # ts)" using ms ih(1) by simp
    fix i assume "i < length (t # ts)"
    then show "map_ticket e ((t # ts) ! i) = Inr (ms ! i)"
      using m ms ih(2) by (cases i) simp_all
  qed
qed

lemma map_tickets_total:
  assumes "\<forall>t \<in> set ts. \<exists>c dt. map_of t ''sys_created_on'' = Some c \<and> strptime c = Some dt
                              \<and> timestamp e dt = Inr (PTime dt)"
  shows "\<exists>ms. map_tickets e ts = Inr ms"
  using assms
proof (induction ts)
  case Nil
  show ?case by simp
next
  case (Cons t ts)
  then obtain ms where "map_tickets e ts = Inr ms" by auto
  moreover from Cons.prems obtain c dt where "map_of t ''sys_created_on'' = Some c"
    "strptime c = Some dt" "timestamp e dt = Inr (PTime dt)"
    by auto
  then have "\<exists>m. map_ticket e t = Inr m" by (simp add: map_ticket_def to_iso8601_def)
  ultimately show ?case by auto
qed

text \<open>
  Claim C7, as the code has it. For a response with status 200 whose records all
  carry a creation timestamp that \<open>strptime\<close> accepts and \<open>timestamp()\<close> converts, the
  fetch returns one mapped record for each raw record, in the order of the response,
  together with the latest raw record. The number, title, query and answer of a
  mapped record are those of the raw record, \<open>None\<close> where the raw record has no such
  field, and its creation time is the converted timestamp.
\<close>

theorem fetch_maps_one_for_one:
  assumes "split_char CHR '' '' a = [d, t]" "source e d t = Inr resp"
    and "status_code resp = 200" "result resp = Inr raw"
    and "\<forall>x \<in> set raw. \<exists>c dt. map_of x ''sys_created_on'' = Some c \<and> strptime c = Some dt
                              \<and> timestamp e dt = Inr (PTime dt)"
  shows "\<exists>ms. fetch_tickets_from_servicenow e (PStr a) = Inr (ms, latest_of raw)
           \<and> length ms = length raw
           \<and> (\<forall>i < length raw.
                 ticket_number (ms ! i) = map_of (raw ! i) ''number''
                 \<and> title (ms ! i) = map_of (raw ! i) ''short_description''
                 \<and> query (ms ! i) = map_of (raw ! i) ''description''
                 \<and> answer (ms ! i) = map_of (raw ! i) ''close_notes''
                 \<and> (\<exists>c dt. map_of (raw ! i) ''sys_created_on'' = Some c
                        \<and> strptime c = Some dt \<and> created (ms ! i) = PTime dt))"
proof -
  from map_tickets_total [OF assms(5)] obtain ms where ms: "map_tickets e raw = Inr ms" by blast
  note one = map_tickets_one_for_one [OF ms]
  have f: "fetch_tickets_from_servicenow e (PStr a) = Inr (ms, latest_of raw)"
  proof (cases "raw = []")
    case True
    with assms ms show ?thesis by (simp add: fetch_tickets_from_servicenow_def)
  next
    case False
    with assms ms show ?thesis by (simp add: fetch_tickets_from_servicenow_def)
  qed
  have fields: "ticket_number (ms ! i) = map_of (raw ! i) ''number''
                 \<and> title (ms ! i) = map_of (raw ! i) ''short_description''
                 \<and> query (ms ! i) = map_of (raw ! i) ''description''
                 \<and> answer (ms ! i) = map_of (raw ! i) ''close_notes''
                 \<and> (\<exists>c dt. map_of (raw ! i) ''sys_created_on'' = Some c
                        \<and> strptime c = Some dt \<and> created (ms ! i) = PTime dt)"
    if "i < length raw" for i
  proof -
    from one that have "map_ticket e (raw ! i) = Inr (ms ! i)" by simp
    then show ?thesis by (rule map_ticket_fields)
  qed
  from f one fields show ?thesis by blast
qed

theorem fetch_maps_one_for_one_witness:
  "split_char CHR '' '' default_cutoff = [''2000-01-01'', ''00:00:00'']
   \<and> (\<exists>ms. fetch_tickets_from_servicenow (env_with [one_ticket, sparse_ticket]) (PStr default_cutoff)
              = Inr (ms, Some sparse_ticket)
          \<and> length ms = 2
          \<and> ticket_number (ms ! 1) = Some ''INC0010003'' \<and> title (ms ! 1) = None
          \<and> query (ms ! 1) = None \<and> answer (ms ! 1) = None)"
proof -
  let ?raw = "[one_ticket, sparse_ticket]"
  let ?resp = "\<lparr>status_code = 200, result = Inr ?raw\<rparr>"
  have sp: "split_char CHR '' '' default_cutoff = [''2000-01-01'', ''00:00:00'']"
    by (simp add: default_cutoff_def)
  have src: "source (env_with ?raw) ''2000-01-01'' ''00:00:00'' = Inr ?resp"
    by (simp add: env_with_def)
  have st: "status_code ?resp = 200" and res: "result ?resp = Inr ?raw" by simp_all
  have p1: "strptime ''2025-07-04 09:30:00'' = Some (2025, 7, 4, 9, 30, 0)" by code_simp
  have p2: "strptime ''2025-07-05 11:00:00'' = Some (2025, 7, 5, 11, 0, 0)" by code_simp
  have t1: "timestamp (env_with ?raw) (2025, 7, 4, 9, 30, 0) = Inr (PTime (2025, 7, 4, 9, 30, 0))"
    by (simp add: timestamp_def env_with_def quiet_env_def)
  have t2: "timestamp (env_with ?raw) (2025, 7, 5, 11, 0, 0) = Inr (PTime (2025, 7, 5, 11, 0, 0))"
    by (simp add: timestamp_def env_with_def quiet_env_def)
  have ts: "\<forall>x \<in> set ?raw. \<exists>c dt. map_of x ''sys_created_on'' = Some c \<and> strptime c = Some dt
                              \<and> timestamp (env_with ?raw) dt = Inr (PTime dt)"
    using p1 p2 t1 t2 by (simp add: one_ticket_def sparse_ticket_def)
  have lat: "latest_of ?raw = Some sparse_ticket" by code_simp
  have n: "map_of sparse_ticket ''number'' = Some ''INC0010003''"
    "map_of sparse_ticket ''short_description'' = None"
    "map_of sparse_ticket ''description'' = None"
    "map_of sparse_ticket ''close_notes'' = None"
    by (simp_all add: sparse_ticket_def)
  from fetch_maps_one_for_one [OF sp src st res ts] lat n sp show ?thesis by auto
qed

text \<open>
  The claim as the spec states it fails twice. A response with another 2xx status
  is not read: its records are dropped. And a record with no creation timestamp is
  not mapped with an empty value: \<open>strptime\<close> raises and the fetch returns no record.
\<close>

theorem fetch_drops_records:
  "fetch_tickets_from_servicenow (env_status 206 [one_ticket]) (PStr default_cutoff) = Inr ([], None)
   \<and> fetch_tickets_from_servicenow (env_with [one_ticket, ticket_without_timestamp])
        (PStr default_cutoff)
       = Inl (TypeError ''strptime() argument 1 must be str, not None'')
   \<and> sync_tickets (env_with [one_ticket, ticket_without_timestamp]) fresh_store
       = (\<lparr>success = False,
           message = ''Error during ticket sync: strptime() argument 1 must be str, not None'',
           tickets_processed = 0, latest_update_time = None\<rparr>, fresh_store)"
  by code_simp

section \<open>Creation of the ticket collection by the endpoints\<close>

text \<open>
  Claim C8 at its failing input. On a store without the ticket collection, the get
  endpoint creates it with no metadata, and so does the update endpoint; a later sync
  run finds the collection and leaves \<open>hnsw:space\<close> absent. The sync run and
  \<open>store_chunks\<close> create their collections with \<open>hnsw:space = cosine\<close>.
\<close>

theorem endpoint_creates_without_cosine:
  "snd (get_last_update_time quiet_env []) = [(''ticketData'', \<lparr>metadata = None, batches = []\<rparr>)]
   \<and> map_of (metadata_of (snd (get_last_update_time quiet_env [])) ''ticketData'') ''hnsw:space'' = None
   \<and> map_of (metadata_of (snd (update_last_update_time quiet_env []
                [(''last_update_time'', PStr ''2025-07-03 15:16:53'')])) ''ticketData'') ''hnsw:space'' = None
   \<and> map_of (metadata_of (snd (sync_tickets (env_with [one_ticket])
                (snd (get_last_update_time quiet_env [])))) ''ticketData'') ''hnsw:space'' = None
   \<and> map_of (metadata_of (snd (sync_tickets quiet_env [])) ''ticketData'') ''hnsw:space''
        = Some (PStr ''cosine'')
   \<and> map_of (metadata_of (snd (store_chunks quiet_env [] [''some text''] ''a.pdf'' ''documentation''))
        ''documentation'') ''hnsw:space'' = Some (PStr ''cosine'')"
  by code_simp

section \<open>Splitting a text into chunks\<close>

lemma occurs_subset: "occurs sep s \<Longrightarrow> set sep \<subseteq> set s"
proof (induction s)
  case Nil
  then show ?case by simp
next
  case (Cons x xs)
  from Cons.prems have "take (length sep) (x # xs) = sep \<or> occurs sep xs" by simp
  then show ?case
  proof
    assume "take (length sep) (x # xs) = sep"
    then have "set sep = set (take (length sep) (x # xs))" by simp
    also have "\<dots> \<subseteq> set (x # xs)" by (rule set_take_subset)
    finally show ?thesis .
  next
    assume "occurs sep xs"
    with Cons.IH show ?thesis by auto
  qed
qed

lemma split_str_none: "c \<notin> set p \<Longrightarrow> split_str [c] p = [p]"
proof (induction p)
  case Nil
  show ?case by (simp add: split_str.simps)
next
  case (Cons x xs)
  then have "split_str [c] xs = [xs]" "x \<noteq> c" by auto
  then show ?case by (subst split_str.simps) simp
qed

lemma split_str_cut: "c \<notin> set p \<Longrightarrow> split_str [c] (p @ c # rest) = p # split_str [c] rest"
proof (induction p)
  case Nil
  show ?case by (subst split_str.simps) simp
next
  case (Cons x xs)
  then have "split_str [c] (xs @ c # rest) = xs # split_str [c] rest" "x \<noteq> c" by auto
  then show ?case by (subst split_str.simps) simp
qed

lemma is_space_blank: "is_space CHR '' ''" "is_space (CHR 0x0A)"
  by (simp_all add: is_space_def)

lemma strip_clean:
  assumes "\<forall>c \<in> set s. \<not> is_space c"
  shows "strip s = s"
proof -
  have a: "dropWhile is_space s = s" using assms by (cases s) auto
  have "\<forall>c \<in> set (rev s). \<not> is_space c" using assms by simp
  then have b: "dropWhile is_space (rev s) = rev s" by (cases "rev s") auto
  show ?thesis by (simp add: strip_def a b)
qed

lemma strip_blank_Cons:
  assumes "\<forall>c \<in> set s. \<not> is_space c"
  shows "strip (CHR '' '' # s) = s"
proof -
  have "strip (CHR '' '' # s) = strip s" by (simp add: strip_def is_space_blank)
  with strip_clean [OF assms] show ?thesis by simp
qed

text \<open>A text with no line break is split at its spaces.\<close>

lemma recursive_split_no_newline:
  assumes "CHR 0x0A \<notin> set text"
  shows "recursive_split separators text = split_loop None (split_text_with_regex '' '' text) []"
proof -
  have "\<not> occurs [CHR 0x0A, CHR 0x0A] text" "\<not> occurs [CHR 0x0A] text"
    using assms occurs_subset by fastforce+
  then show ?thesis by (simp add: separators_def)
qed

text \<open>A text of 500 characters or more with no blank in it is one chunk.\<close>

lemma split_text_no_blank:
  assumes "\<forall>c \<in> set text. \<not> is_space c" "chunk_size \<le> length text"
  shows "split_text text = [text]"
proof -
  from assms(1) is_space_blank have nl: "CHR 0x0A \<notin> set text" and sp: "CHR '' '' \<notin> set text"
    by auto
  from assms(2) have ne: "text \<noteq> []" by (auto simp: chunk_size_def)
  have "split_text_with_regex '' '' text = [text]"
    using ne by (simp add: split_text_with_regex_def split_str_none [OF sp])
  then have "recursive_split separators text = [text]"
    using assms(2) by (simp add: recursive_split_no_newline [OF nl] flush_def)
  then show ?thesis using ne by (simp add: split_text_def strip_clean [OF assms(1)])
qed

text \<open>Three words of 300 characters, a space between them: three chunks, the words.\<close>

lemma split_text_three_words:
  assumes clean: "\<forall>c \<in> set (A @ B @ C). \<not> is_space c"
    and len: "length A = 300" "length B = 300" "length C = 300"
  shows "split_text (A @ CHR '' '' # B @ CHR '' '' # C) = [A, B, C]"
proof -
  let ?text = "A @ CHR '' '' # B @ CHR '' '' # C"
  from clean is_space_blank have nl: "CHR 0x0A \<notin> set ?text" by auto
  from clean is_space_blank have spA: "CHR '' '' \<notin> set A" and spB: "CHR '' '' \<notin> set B"
    and spC: "CHR '' '' \<notin> set C" by auto
  from len have ne: "A \<noteq> []" "B \<noteq> []" "C \<noteq> []" by auto
  from clean have cA: "\<forall>c \<in> set A. \<not> is_space c" and cB: "\<forall>c \<in> set B. \<not> is_space c"
    and cC: "\<forall>c \<in> set C. \<not> is_space c" by auto
  have "split_str '' '' ?text = [A, B, C]"
    by (simp add: split_str_cut [OF spA] split_str_cut [OF spB] split_str_none [OF spC])
  then have pieces: "split_text_with_regex '' '' ?text = [A, CHR '' '' # B, CHR '' '' # C]"
    using ne by (simp add: split_text_with_regex_def)
  have j: "join_docs [A] = Some A" "join_docs [CHR '' '' # B] = Some B"
    "join_docs [CHR '' '' # C] = Some C"
    using ne by (simp_all add: join_docs_def strip_clean [OF cA] strip_blank_Cons [OF cB]
        strip_blank_Cons [OF cC])
  have "merge_splits [A, CHR '' '' # B, CHR '' '' # C] = [A, B, C]"
    using len by (simp add: merge_splits_def append_doc_def j chunk_size_def chunk_overlap_def)
  then have "recursive_split separators ?text = [A, B, C]"
    using len by (simp add: recursive_split_no_newline [OF nl] pieces flush_def chunk_size_def)
  then show ?thesis
    using ne by (simp add: split_text_def strip_clean [OF cA] strip_clean [OF cB] strip_clean [OF cC])
qed

subsection \<open>The length of merged chunks\<close>

lemma length_strip_le: "length (strip s) \<le> length s"
proof -
  have "length (strip s) = length (dropWhile is_space (rev (dropWhile is_space s)))"
    by (simp add: strip_def)
  also have "\<dots> \<le> length (rev (dropWhile is_space s))" by (rule length_dropWhile_le)
  also have "\<dots> \<le> length s" by (simp add: length_dropWhile_le)
  finally show ?thesis .
qed

lemma pop_front_total:
  assumes "pop_front len cur tot = (cur', tot')" "tot = length (concat cur)"
  shows "tot' = length (concat cur') \<and> (tot' + len \<le> chunk_size \<or> tot' = 0)"
  using assms
proof (induction cur arbitrary: tot)
  case Nil
  then show ?case by simp
next
  case (Cons d ds)
  show ?case
  proof (cases "tot > chunk_overlap \<or> (tot + len > chunk_size \<and> tot > 0)")
    case True
    with Cons.prems have "pop_front len ds (tot - length d) = (cur', tot')" by simp
    moreover from Cons.prems have "tot - length d = length (concat ds)" by simp
    ultimately show ?thesis by (rule Cons.IH)
  next
    case False
    with Cons.prems show ?thesis by auto
  qed
qed

lemma append_doc_bound:
  assumes "\<forall>x \<in> set docs. length x \<le> n" "length (concat cur) \<le> n"
  shows "\<forall>x \<in> set (append_doc docs cur). length x \<le> n"
proof -
  have "length (strip (concat cur)) \<le> n"
    using length_strip_le [of "concat cur"] assms(2) by simp
  with assms(1) show ?thesis
    by (auto simp: append_doc_def join_docs_def Let_def split: option.splits if_splits)
qed

lemma merge_loop_bound:
  assumes "\<forall>d \<in> set ds. length d \<le> chunk_size"
    and "\<forall>x \<in> set docs. length x \<le> chunk_size"
    and "tot = length (concat cur)" "tot \<le> chunk_size"
  shows "\<forall>x \<in> set (merge_loop ds docs cur tot). length x \<le> chunk_size"
  using assms
proof (induction ds arbitrary: docs cur tot)
  case Nil
  have "length (concat cur) \<le> chunk_size" using Nil.prems(3,4) by simp
  with Nil.prems(2) have "\<forall>x \<in> set (append_doc docs cur). length x \<le> chunk_size"
    by (rule append_doc_bound)
  then show ?case by simp
next
  case (Cons d ds)
  from Cons.prems(1) have d: "length d \<le> chunk_size"
    and ds: "\<forall>d \<in> set ds. length d \<le> chunk_size"
    by simp_all
  have cc: "length (concat cur) \<le> chunk_size" using Cons.prems(3,4) by simp
  show ?case
  proof (cases "tot + length d > chunk_size \<and> cur \<noteq> []")
    case True
    obtain cur' tot' where pf: "pop_front (length d) cur tot = (cur', tot')"
      by (cases "pop_front (length d) cur tot")
    from pop_front_total [OF pf Cons.prems(3)]
    have t': "tot' = length (concat cur')" and fit: "tot' + length d \<le> chunk_size \<or> tot' = 0"
      by blast+
    from Cons.prems(2) cc have docs': "\<forall>x \<in> set (append_doc docs cur). length x \<le> chunk_size"
      by (rule append_doc_bound)
    have eq: "tot' + length d = length (concat (cur' @ [d]))" using t' by simp
    have le: "tot' + length d \<le> chunk_size" using fit d by auto
    have step: "merge_loop (d # ds) docs cur tot
                 = merge_loop ds (append_doc docs cur) (cur' @ [d]) (tot' + length d)"
      using True pf by (simp add: Let_def)
    from Cons.IH [OF ds docs' eq le] show ?thesis by (simp only: step)
  next
    case False
    have small: "tot + length d \<le> chunk_size"
    proof (cases "cur = []")
      case True
      with Cons.prems(3) d show ?thesis by simp
    next
      case nonempty: False
      with False show ?thesis by simp
    qed
    have eq: "tot + length d = length (concat (cur @ [d]))" using Cons.prems(3) by simp
    have step: "merge_loop (d # ds) docs cur tot = merge_loop ds docs (cur @ [d]) (tot + length d)"
      by (simp only: merge_loop.simps Let_def False if_False)
    from Cons.IH [OF ds Cons.prems(2) eq small] show ?thesis by (simp only: step)
  qed
qed

lemma flush_bound:
  assumes "\<forall>g \<in> set good. length g \<le> chunk_size"
  shows "\<forall>x \<in> set (flush good). length x \<le> chunk_size"
  using merge_loop_bound [of good "[]" 0 "[]"] assms
  by (simp add: flush_def merge_splits_def)

lemma split_loop_chunks:
  assumes "\<forall>g \<in> set good. length g \<le> chunk_size"
  shows "\<forall>chunk \<in> set (split_loop deeper ps good).
           length chunk \<le> chunk_size
           \<or> (\<exists>p \<in> set ps. chunk_size \<le> length p
                 \<and> chunk \<in> set (case deeper of None \<Rightarrow> [p] | Some f \<Rightarrow> f p))"
  using assms
proof (induction ps arbitrary: good)
  case Nil
  then show ?case using flush_bound [of good] by simp
next
  case (Cons p ps)
  show ?case
  proof (cases "length p < chunk_size")
    case True
    with Cons.prems have "\<forall>g \<in> set (good @ [p]). length g \<le> chunk_size" by auto
    from Cons.IH [OF this] True show ?thesis by auto
  next
    case False
    have e: "\<forall>g \<in> set ([] :: string list). length g \<le> chunk_size" by simp
    from Cons.IH [OF e] flush_bound [OF Cons.prems] False show ?thesis by auto
  qed
qed

lemma longest_run_ge: "cur \<le> longest_run cur s"
proof (induction s arbitrary: cur)
  case Nil
  show ?case by simp
next
  case (Cons c cs)
  have "cur \<le> Suc cur" by simp
  also have "Suc cur \<le> longest_run (Suc cur) cs" by (rule Cons.IH)
  finally show ?case by simp
qed

lemma longest_run_mono: "a \<le> b \<Longrightarrow> longest_run a s \<le> longest_run b s"
proof (induction s arbitrary: a b)
  case Nil
  then show ?case by simp
next
  case (Cons c cs)
  from Cons.prems have "Suc a \<le> Suc b" by simp
  from Cons.IH [OF this] Cons.prems show ?case by auto
qed

lemma longest_run_clean:
  "\<forall>c \<in> set w. \<not> sep_char c \<Longrightarrow> cur + length w \<le> longest_run cur (w @ ss)"
proof (induction w arbitrary: cur)
  case Nil
  show ?case by (simp add: longest_run_ge)
next
  case (Cons c w)
  from Cons.prems have "\<forall>c \<in> set w. \<not> sep_char c" by simp
  from Cons.IH [OF this, of "Suc cur"] Cons.prems show ?case by simp
qed

lemma longest_run_suffix: "longest_run 0 t \<le> longest_run cur (ps @ t)"
proof (induction ps arbitrary: cur)
  case Nil
  show ?case by (simp add: longest_run_mono)
next
  case (Cons c ps)
  show ?case
  proof (cases "sep_char c")
    case True
    have "longest_run 0 t \<le> longest_run 0 (ps @ t)" by (rule Cons.IH)
    with True show ?thesis by simp
  next
    case False
    have "longest_run 0 t \<le> longest_run (Suc cur) (ps @ t)" by (rule Cons.IH)
    with False show ?thesis by simp
  qed
qed

lemma word_le_longest:
  assumes "sublist w s" "\<forall>c \<in> set w. \<not> sep_char c"
  shows "length w \<le> longest_word s"
proof -
  from assms(1) obtain ps ss where s: "s = ps @ w @ ss" by (auto simp: sublist_def)
  have "length w \<le> longest_run 0 (w @ ss)" using longest_run_clean [OF assms(2), of 0 ss] by simp
  also have "\<dots> \<le> longest_run 0 (ps @ w @ ss)" by (rule longest_run_suffix)
  finally show ?thesis by (simp add: longest_word_def s)
qed

lemma split_str_nonempty: "split_str sep s \<noteq> []"
proof (induction sep s rule: split_str.induct)
  case (1 sep s)
  show ?case by (subst split_str.simps) (auto split: list.splits)
qed

lemma split_str_free: "x \<in> set (split_str [c] s) \<Longrightarrow> c \<notin> set x"
proof (induction s arbitrary: x)
  case Nil
  then show ?case by (simp add: split_str.simps)
next
  case (Cons h t)
  show ?case
  proof (cases "h = c")
    case True
    then have "split_str [c] (h # t) = [] # split_str [c] t"
      by (subst split_str.simps) simp
    with Cons show ?thesis by auto
  next
    case False
    obtain p ps where ps: "split_str [c] t = p # ps"
      using split_str_nonempty [of "[c]" t] by (cases "split_str [c] t") auto
    with False have "split_str [c] (h # t) = (h # p) # ps"
      by (subst split_str.simps) simp
    with Cons ps False show ?thesis by auto
  qed
qed

text \<open>The first piece is a prefix of the text; every other piece follows a separator.\<close>

lemma split_str_pieces:
  assumes "sep \<noteq> []" "split_str sep s = first # rest"
  shows "prefix first s \<and> (\<forall>x \<in> set rest. sublist (sep @ x) s)"
  using assms
proof (induction sep s arbitrary: first rest rule: split_str.induct)
  case (1 sep s)
  show ?case
  proof (cases "s = []")
    case True
    with "1.prems" show ?thesis by (simp add: split_str.simps)
  next
    case ne: False
    show ?thesis
    proof (cases "take (length sep) s = sep")
      case True
      from True have s: "s = sep @ drop (length sep) s"
        by (metis append_take_drop_id)
      from "1.prems" ne True have eq: "first = []" "rest = split_str sep (drop (length sep) s)"
        by (simp_all add: split_str.simps [of sep s])
      obtain f r where fr: "split_str sep (drop (length sep) s) = f # r"
        using split_str_nonempty [of sep "drop (length sep) s"]
        by (cases "split_str sep (drop (length sep) s)") auto
      from "1.IH"(1) [OF "1.prems"(1) ne True "1.prems"(1) fr]
      have ih: "prefix f (drop (length sep) s)" "\<forall>x \<in> set r. sublist (sep @ x) (drop (length sep) s)"
        by simp_all
      have "sublist (sep @ f) s"
      proof -
        from ih(1) have "prefix (sep @ f) (sep @ drop (length sep) s)" by simp
        with s have "prefix (sep @ f) s" by simp
        then show ?thesis by (rule prefix_imp_sublist)
      qed
      moreover have "sublist (sep @ x) s" if "x \<in> set r" for x
      proof -
        from ih(2) that have "sublist (sep @ x) (drop (length sep) s)" by simp
        moreover have "sublist (drop (length sep) s) s" by simp
        ultimately show ?thesis by (rule sublist_order.order_trans)
      qed
      ultimately show ?thesis using eq fr by auto
    next
      case False
      obtain p ps where ps: "split_str sep (tl s) = p # ps"
        using split_str_nonempty [of sep "tl s"] by (cases "split_str sep (tl s)") auto
      from "1.prems" ne False ps have eq: "first = hd s # p" "rest = ps"
        by (simp_all add: split_str.simps [of sep s])
      from "1.IH"(2) [OF "1.prems"(1) ne False "1.prems"(1) ps]
      have ih: "prefix p (tl s)" "\<forall>x \<in> set ps. sublist (sep @ x) (tl s)" by simp_all
      from ne have s: "s = hd s # tl s" by simp
      have "prefix (hd s # p) s" using ih(1) s by (metis Cons_prefix_Cons)
      moreover have "sublist (sep @ x) s" if "x \<in> set ps" for x
      proof -
        from ih(2) that have "sublist (sep @ x) (tl s)" by simp
        moreover have "sublist (tl s) s" by simp
        ultimately show ?thesis by (rule sublist_order.order_trans)
      qed
      ultimately show ?thesis using eq by auto
    qed
  qed
qed


lemma split_str_sublist:
  assumes "sep \<noteq> []" "x \<in> set (split_str sep s)"
  shows "sublist x s"
proof -
  obtain first rest where fr: "split_str sep s = first # rest"
    using split_str_nonempty [of sep s] by (cases "split_str sep s") auto
  note p = split_str_pieces [OF assms(1) fr]
  from assms(2) fr have "x = first \<or> x \<in> set rest" by simp
  then show ?thesis
  proof
    assume "x = first"
    with p show ?thesis by (simp add: prefix_imp_sublist)
  next
    assume "x \<in> set rest"
    with p have "sublist (sep @ x) s" by simp
    moreover have "sublist x (sep @ x)" by simp
    ultimately show ?thesis using sublist_order.order_trans by blast
  qed
qed

text \<open>The pieces of \<open>split_text_with_regex\<close> are parts of the text: a piece of
  \<open>split_str\<close>, on its own or after the separator.\<close>

lemma split_text_with_regex_pieces:
  assumes "sep \<noteq> []" "r \<in> set (split_text_with_regex sep s)"
  shows "sublist r s \<and> (\<exists>x \<in> set (split_str sep s). r = x \<or> r = sep @ x)"
proof -
  obtain first rest where fr: "split_str sep s = first # rest"
    using split_str_nonempty [of sep s] by (cases "split_str sep s") auto
  note p = split_str_pieces [OF assms(1) fr]
  from assms(2) fr have "r = first \<or> (\<exists>x \<in> set rest. r = sep @ x)"
    by (auto simp: split_text_with_regex_def split: if_splits)
  then show ?thesis
  proof
    assume "r = first"
    with p fr show ?thesis by (auto simp: prefix_imp_sublist)
  next
    assume "\<exists>x \<in> set rest. r = sep @ x"
    with p fr show ?thesis by auto
  qed
qed

lemma kept_pieces:
  assumes "split_str sep s = first # rest" "r \<in> set (split_text_with_regex sep s)"
  shows "r = first \<or> (\<exists>x \<in> set rest. r = sep @ x)"
  using assms by (auto simp: split_text_with_regex_def split: if_splits)

lemma occurs_char: "c \<in> set s \<Longrightarrow> occurs [c] s"
  by (induction s) auto

text \<open>The last level: a text with no line break after its first character.\<close>

lemma space_level_bound:
  assumes pre: "pre = [] \<or> pre = [CHR 0x0A]"
    and nl: "CHR 0x0A \<notin> set q"
    and words: "\<And>w. sublist w q \<Longrightarrow> \<forall>c \<in> set w. \<not> sep_char c \<Longrightarrow> length w \<le> 498"
  shows "\<forall>chunk \<in> set (recursive_split ['' ''] (pre @ q)). length chunk \<le> chunk_size"
proof -
  have word: "length x \<le> 498" if "x \<in> set (split_str '' '' q)" for x
  proof -
    from that have sub: "sublist x q" by (intro split_str_sublist [of "'' ''"]) simp_all
    from that have "CHR '' '' \<notin> set x" by (rule split_str_free)
    moreover from sub nl have "CHR 0x0A \<notin> set x" using set_mono_sublist by fastforce
    ultimately have "\<forall>c \<in> set x. \<not> sep_char c" by (auto simp: sep_char_def)
    with sub show ?thesis by (rule words)
  qed
  obtain f r0 where fr: "split_str '' '' q = f # r0"
    using split_str_nonempty [of "'' ''" q] by (cases "split_str '' '' q") auto
  have fr': "split_str '' '' (pre @ q) = (pre @ f) # r0"
  proof (cases "pre = []")
    case True
    with fr show ?thesis by simp
  next
    case False
    with pre have p: "pre = [CHR 0x0A]" by simp
    show ?thesis using p fr by (subst split_str.simps) simp
  qed
  have short: "length r < chunk_size" if "r \<in> set (split_text_with_regex '' '' (pre @ q))" for r
  proof -
    from kept_pieces [OF fr' that] have "r = pre @ f \<or> (\<exists>x \<in> set r0. r = '' '' @ x)" .
    then show ?thesis
    proof
      assume r: "r = pre @ f"
      have "length f \<le> 498" using word [of f] fr by simp
      moreover have "length pre \<le> 1" using pre by auto
      ultimately show ?thesis using r by (simp add: chunk_size_def)
    next
      assume "\<exists>x \<in> set r0. r = '' '' @ x"
      then obtain x where x: "x \<in> set r0" "r = '' '' @ x" by blast
      have "length x \<le> 498" using word [of x] fr x(1) by simp
      then show ?thesis using x(2) by (simp add: chunk_size_def)
    qed
  qed
  have rs: "recursive_split ['' ''] (pre @ q)
              = split_loop None (split_text_with_regex '' '' (pre @ q)) []"
    by simp
  show ?thesis
  proof
    fix chunk assume "chunk \<in> set (recursive_split ['' ''] (pre @ q))"
    with rs have c: "chunk \<in> set (split_loop None (split_text_with_regex '' '' (pre @ q)) [])"
      by simp
    have e: "\<forall>g \<in> set ([] :: string list). length g \<le> chunk_size" by simp
    from split_loop_chunks [OF e, of None "split_text_with_regex '' '' (pre @ q)"] c
    have "length chunk \<le> chunk_size
          \<or> (\<exists>p \<in> set (split_text_with_regex '' '' (pre @ q)). chunk_size \<le> length p)"
      by auto
    with short show "length chunk \<le> chunk_size" by fastforce
  qed
qed

text \<open>The level of the line breaks.\<close>

lemma line_level_bound:
  assumes words: "\<And>w. sublist w p \<Longrightarrow> \<forall>c \<in> set w. \<not> sep_char c \<Longrightarrow> length w \<le> 498"
  shows "\<forall>chunk \<in> set (recursive_split [[CHR 0x0A], '' ''] p). length chunk \<le> chunk_size"
proof (cases "occurs [CHR 0x0A] p")
  case False
  then have nl: "CHR 0x0A \<notin> set p" using occurs_char by blast
  from False have "recursive_split [[CHR 0x0A], '' ''] p = recursive_split ['' ''] p"
    by (subst recursive_split.simps(2)) (simp del: recursive_split.simps)
  moreover have "\<forall>chunk \<in> set (recursive_split ['' ''] ([] @ p)). length chunk \<le> chunk_size"
    using nl words by (intro space_level_bound) simp_all
  ultimately show ?thesis by simp
next
  case True
  let ?pieces = "split_text_with_regex [CHR 0x0A] p"
  from True have rs: "recursive_split [[CHR 0x0A], '' ''] p
              = split_loop (Some (\<lambda>x. recursive_split ['' ''] x)) ?pieces []"
    by (subst recursive_split.simps(2)) (simp del: recursive_split.simps)
  have deep: "\<forall>chunk \<in> set (recursive_split ['' ''] r). length chunk \<le> chunk_size"
    if "r \<in> set ?pieces" for r
  proof -
    from split_text_with_regex_pieces [OF _ that]
    obtain x where x: "x \<in> set (split_str [CHR 0x0A] p)" "r = x \<or> r = [CHR 0x0A] @ x" by auto
    from x(1) have free: "CHR 0x0A \<notin> set x" by (rule split_str_free)
    from x(1) have sub: "sublist x p" by (intro split_str_sublist [of "[CHR 0x0A]"]) simp_all
    have w: "length w \<le> 498" if "sublist w x" "\<forall>c \<in> set w. \<not> sep_char c" for w
    proof -
      from that(1) sub have "sublist w p" using sublist_order.order_trans by blast
      then show ?thesis using that(2) by (rule words)
    qed
    from x(2) obtain pre where pre: "pre = [] \<or> pre = [CHR 0x0A]" "r = pre @ x" by auto
    from space_level_bound [OF pre(1) free w] pre(2) show ?thesis by simp
  qed
  show ?thesis
  proof
    fix chunk assume "chunk \<in> set (recursive_split [[CHR 0x0A], '' ''] p)"
    with rs have c: "chunk \<in> set (split_loop (Some (\<lambda>x. recursive_split ['' ''] x)) ?pieces [])"
      by (simp del: recursive_split.simps)
    have e: "\<forall>g \<in> set ([] :: string list). length g \<le> chunk_size" by simp
    from split_loop_chunks [OF e, of "Some (\<lambda>x. recursive_split ['' ''] x)" ?pieces] c
    have "length chunk \<le> chunk_size
          \<or> (\<exists>r \<in> set ?pieces. chunk \<in> set (recursive_split ['' ''] r))"
      by (auto simp del: recursive_split.simps)
    with deep show "length chunk \<le> chunk_size" by blast
  qed
qed

text \<open>The level of the paragraph breaks, where \<open>split_text\<close> starts.\<close>

lemma recursive_split_bound:
  assumes "longest_word text \<le> 498"
  shows "\<forall>chunk \<in> set (recursive_split separators text). length chunk \<le> chunk_size"
proof -
  have words: "length w \<le> 498" if "sublist w text" "\<forall>c \<in> set w. \<not> sep_char c" for w
    using word_le_longest [OF that] assms by simp
  show ?thesis
  proof (cases "occurs [CHR 0x0A, CHR 0x0A] text")
    case False
    then have "recursive_split separators text = recursive_split [[CHR 0x0A], '' ''] text"
      unfolding separators_def
      by (subst recursive_split.simps(2)) (simp del: recursive_split.simps)
    with line_level_bound [of "text"] words show ?thesis by simp
  next
    case True
    let ?pieces = "split_text_with_regex [CHR 0x0A, CHR 0x0A] text"
    from True have rs: "recursive_split separators text
              = split_loop (Some (\<lambda>x. recursive_split [[CHR 0x0A], '' ''] x)) ?pieces []"
      unfolding separators_def
      by (subst recursive_split.simps(2)) (simp del: recursive_split.simps)
    have deep: "\<forall>chunk \<in> set (recursive_split [[CHR 0x0A], '' ''] r). length chunk \<le> chunk_size"
      if "r \<in> set ?pieces" for r
    proof -
      from split_text_with_regex_pieces [OF _ that] have sub: "sublist r text" by simp
      have "length w \<le> 498" if "sublist w r" "\<forall>c \<in> set w. \<not> sep_char c" for w
      proof -
        from that(1) sub have "sublist w text" using sublist_order.order_trans by blast
        then show ?thesis using that(2) by (rule words)
      qed
      then show ?thesis by (rule line_level_bound)
    qed
    show ?thesis
    proof
      fix chunk assume "chunk \<in> set (recursive_split separators text)"
      with rs have c: "chunk \<in> set (split_loop (Some (\<lambda>x. recursive_split [[CHR 0x0A], '' ''] x))
                                      ?pieces [])"
        by (simp del: recursive_split.simps)
      have e: "\<forall>g \<in> set ([] :: string list). length g \<le> chunk_size" by simp
      from split_loop_chunks [OF e, of "Some (\<lambda>x. recursive_split [[CHR 0x0A], '' ''] x)"
          "split_text_with_regex [CHR 0x0A, CHR 0x0A] text"] c
      have "length chunk \<le> chunk_size
            \<or> (\<exists>r \<in> set ?pieces. chunk \<in> set (recursive_split [[CHR 0x0A], '' ''] r))"
        by (auto simp del: recursive_split.simps)
      with deep show "length chunk \<le> chunk_size" by blast
    qed
  qed
qed

text \<open>
  Claim C10, as the code has it. For every text, no chunk that \<open>split_text\<close> returns
  is empty or blank after trimming. Every chunk is at most 500 characters long when
  the text has no run of more than 498 characters without a space or a line break.
  The chunk size is otherwise no bound, and the overlap is what the splitter aims at,
  not a bound.
\<close>

theorem chunks_never_blank:
  "(\<forall>chunk \<in> set (split_text text). strip chunk \<noteq> [] \<and> chunk \<noteq> [])
   \<and> (longest_word text \<le> 498 \<longrightarrow> (\<forall>chunk \<in> set (split_text text). length chunk \<le> 500))"
proof -
  have a: "strip chunk \<noteq> [] \<and> chunk \<noteq> []" if "chunk \<in> set (split_text text)" for chunk
  proof -
    from that have s: "strip chunk \<noteq> []" by (simp add: split_text_def)
    moreover have "chunk \<noteq> []" using s by (auto simp: strip_def)
    ultimately show ?thesis by simp
  qed
  have b: "length chunk \<le> 500" if "longest_word text \<le> 498" "chunk \<in> set (split_text text)" for chunk
  proof -
    from that(2) have "chunk \<in> set (recursive_split separators text)" by (simp add: split_text_def)
    with recursive_split_bound [OF that(1)] show ?thesis by (simp add: chunk_size_def)
  qed
  from a b show ?thesis by blast
qed

theorem chunks_never_blank_witness:
  "longest_word (replicate 300 CHR ''a'' @ CHR '' '' # replicate 300 CHR ''b''
                   @ CHR '' '' # replicate 300 CHR ''c'') \<le> 498
   \<and> split_text (replicate 300 CHR ''a'' @ CHR '' '' # replicate 300 CHR ''b''
                   @ CHR '' '' # replicate 300 CHR ''c'')
       = [replicate 300 CHR ''a'', replicate 300 CHR ''b'', replicate 300 CHR ''c'']
   \<and> strip (replicate 300 CHR ''b'') \<noteq> []
   \<and> length (replicate 300 CHR ''b'') \<le> 500"
proof -
  let ?t = "replicate 300 CHR ''a'' @ CHR '' '' # replicate 300 CHR ''b''
              @ CHR '' '' # replicate 300 CHR ''c''"
  have w: "longest_word ?t \<le> 498" by code_simp
  have clean3: "\<forall>c \<in> set (replicate 300 CHR ''a'' @ replicate 300 CHR ''b'' @ replicate 300 CHR ''c'').
                  \<not> is_space c"
    by (auto simp: is_space_def)
  have three: "split_text ?t = [replicate 300 CHR ''a'', replicate 300 CHR ''b'', replicate 300 CHR ''c'']"
    using clean3 by (rule split_text_three_words) simp_all
  from chunks_never_blank [of ?t] w three show ?thesis by simp
qed

text \<open>
  The bounds of the claim fail. A text of 600 characters with no separator in it is
  returned as one chunk of 600 characters. Three words of 300 characters with a space
  between them are returned as three chunks, the words: the first and the second
  chunk, neither of them the last, have no overlap.
\<close>

theorem chunk_bounds_fail:
  "500 \<le> length (replicate 600 CHR ''a'')
   \<and> \<not> (\<forall>chunk \<in> set (split_text (replicate 600 CHR ''a'')). length chunk \<le> 500)
   \<and> 500 \<le> length (replicate 300 CHR ''a'' @ CHR '' '' # replicate 300 CHR ''b''
                     @ CHR '' '' # replicate 300 CHR ''c'')
   \<and> split_text (replicate 300 CHR ''a'' @ CHR '' '' # replicate 300 CHR ''b''
                     @ CHR '' '' # replicate 300 CHR ''c'')
       = [replicate 300 CHR ''a'', replicate 300 CHR ''b'', replicate 300 CHR ''c'']
   \<and> \<not> overlap_at_least 100 (replicate 300 CHR ''a'') (replicate 300 CHR ''b'')"
proof -
  have clean: "\<forall>c \<in> set (replicate 600 CHR ''a''). \<not> is_space c" by (simp add: is_space_def)
  have "chunk_size \<le> length (replicate 600 CHR ''a'')" by (simp add: chunk_size_def)
  with clean have one: "split_text (replicate 600 CHR ''a'') = [replicate 600 CHR ''a'']"
    by (rule split_text_no_blank)
  have clean3: "\<forall>c \<in> set (replicate 300 CHR ''a'' @ replicate 300 CHR ''b'' @ replicate 300 CHR ''c'').
                  \<not> is_space c"
    by (auto simp: is_space_def)
  have three: "split_text (replicate 300 CHR ''a'' @ CHR '' '' # replicate 300 CHR ''b''
                     @ CHR '' '' # replicate 300 CHR ''c'')
       = [replicate 300 CHR ''a'', replicate 300 CHR ''b'', replicate 300 CHR ''c'']"
    using clean3 by (rule split_text_three_words) simp_all
  have no: "\<not> overlap_at_least 100 (replicate 300 CHR ''a'') (replicate 300 CHR ''b'')"
  proof
    assume "overlap_at_least 100 (replicate 300 CHR ''a'') (replicate 300 CHR ''b'')"
    then obtain k where k: "100 \<le> k" "k \<le> 300"
      and eq: "drop (300 - k) (replicate 300 CHR ''a'') = take k (replicate 300 CHR ''b'')"
      by (auto simp: overlap_at_least_def)
    from eq k have "replicate k CHR ''a'' = replicate k CHR ''b''" by (simp add: min_def)
    with k show False by (cases k) simp_all
  qed
  from one three no show ?thesis by simp
qed

end
